theory Spec2Isabelle
  imports Main "HOL-Library.Word"
begin

section \<open>The gaze detector (detector.js)\<close>

subsection \<open>JavaScript numbers and image data\<close>

text \<open>
  The distances of \<open>l1Distance\<close> are JavaScript numbers. Every value the loop adds is an
  integer between 0 and 255, and integers are exact in a double below \<open>2 ^ 53\<close>, so a
  number is modelled as an integer, or \<open>NaN\<close>: reading a typed array beyond its length
  gives \<open>undefined\<close>, and \<open>undefined - undefined\<close> is \<open>NaN\<close>.
\<close>

datatype num = NaN | Num int

fun num_sub :: "num \<Rightarrow> num \<Rightarrow> num" where
  "num_sub (Num a) (Num b) = Num (a - b)"
| "num_sub _ _ = NaN"

fun num_add :: "num \<Rightarrow> num \<Rightarrow> num" where
  "num_add (Num a) (Num b) = Num (a + b)"
| "num_add _ _ = NaN"

fun num_abs :: "num \<Rightarrow> num" where
  "num_abs (Num a) = Num \<bar>a\<bar>"
| "num_abs NaN = NaN"

text \<open>\<open>a < b\<close> on numbers: every comparison with \<open>NaN\<close> is false.\<close>

fun num_lt :: "num \<Rightarrow> num \<Rightarrow> bool" where
  "num_lt (Num a) (Num b) = (a < b)"
| "num_lt _ _ = False"

text \<open>
  An \<open>ImageData\<close> object: \<open>data\<close> is a \<open>Uint8ClampedArray\<close> of RGBA bytes, four per
  pixel, row by row.
\<close>

record imageData =
  width :: nat
  height :: nat
  data :: "8 word list"

text \<open>The browser only builds image data whose array has four bytes per pixel.\<close>

definition wf_image :: "imageData \<Rightarrow> bool" where
  "wf_image img = (length (data img) = width img * height img * 4)"

text \<open>\<open>x[i]\<close> on a typed array, as a number.\<close>

definition at :: "8 word list \<Rightarrow> nat \<Rightarrow> num" where
  "at x i = (if i < length x then Num (uint (x ! i)) else NaN)"

text \<open>
  The exceptions of the program: the \<open>Error\<close> of \<open>checkDimensions\<close>, and the
  \<open>TypeError\<close> of a call on an undefined value.
\<close>

datatype jsError = DimensionError | TypeError

subsection \<open>checkDimensions and l1Distance\<close>

text \<open>
  \<open>matchWidth & matchHeight\<close> is the bitwise and of two booleans: 1 when both hold,
  0 otherwise. The \<open>throw\<close> is the \<open>Inl\<close> branch.
\<close>

definition checkDimensions :: "imageData \<Rightarrow> imageData \<Rightarrow> jsError + (nat \<times> nat)" where
  "checkDimensions img1 img2 =
     (let matchWidth = (width img1 = width img2);
          matchHeight = (height img1 = height img2)
      in if matchWidth \<and> matchHeight then Inr (width img1, height img1)
         else Inl DimensionError)"

text \<open>The \<open>for\<close> loop of \<open>l1Distance\<close>, from index \<open>i\<close> with the running \<open>distance\<close>.\<close>

function l1_loop :: "8 word list \<Rightarrow> 8 word list \<Rightarrow> nat \<Rightarrow> nat \<Rightarrow> num \<Rightarrow> num" where
  "l1_loop x1 x2 ixMax i distance =
     (if i < ixMax then
        (if i mod 4 = 3 then l1_loop x1 x2 ixMax (i + 1) distance
         else l1_loop x1 x2 ixMax (i + 1)
                (num_add distance (num_abs (num_sub (at x1 i) (at x2 i)))))
      else distance)"
  by pat_completeness auto
termination
  by (relation "measure (\<lambda>(x1, x2, ixMax, i, distance). ixMax - i)") auto

declare l1_loop.simps [simp del]

definition l1Distance :: "imageData \<Rightarrow> imageData \<Rightarrow> jsError + num" where
  "l1Distance img1 img2 =
     (case checkDimensions img1 img2 of
        Inl e \<Rightarrow> Inl e
      | Inr (w, h) \<Rightarrow> Inr (l1_loop (data img1) (data img2) (w * h * 4) 0 (Num 0)))"

text \<open>
  The distance in the spec's words: over all pixels, the sum of the absolute differences
  of the three colour channels, the fourth (alpha) byte of each pixel left out.
\<close>

definition channel_diff :: "imageData \<Rightarrow> imageData \<Rightarrow> nat \<Rightarrow> nat \<Rightarrow> int" where
  "channel_diff img1 img2 p c =
     \<bar>uint (data img1 ! (4 * p + c)) - uint (data img2 ! (4 * p + c))\<bar>"

definition spec_distance :: "imageData \<Rightarrow> imageData \<Rightarrow> int" where
  "spec_distance img1 img2 =
     (\<Sum>p < width img1 * height img1. \<Sum>c < 3. channel_diff img1 img2 p c)"

subsection \<open>The detector object\<close>

datatype gazeState = Rest | Gaze

datatype gesture = GestureBegin | GestureEnd

datatype pollFn = Detect

text \<open>
  The shared secrets \<open>my\<close> of \<open>makeGenericDetector\<close> and \<open>makeGazeDetector\<close>, with what the
  detector does to its surroundings: \<open>emitted\<close> lists the events given to
  \<open>my.emitter.emit\<close>, oldest first; \<open>classList\<close> is the class list of the status element;
  \<open>intervals\<close> are the interval timers of \<open>window\<close> that are live, each with its id,
  its callback and its delay in milliseconds; \<open>nextId\<close> is the id the next
  \<open>setInterval\<close> returns. \<open>status\<close> and \<open>interval\<close> start as \<open>null\<close>.
\<close>

record detector =
  state :: gazeState
  status :: "string option"
  interval :: "nat option"
  emitted :: "gesture list"
  classList :: "string list"
  intervals :: "(nat \<times> pollFn \<times> nat) list"
  nextId :: nat

definition emitGestureStart :: "detector \<Rightarrow> detector" where
  "emitGestureStart my = my\<lparr>emitted := emitted my @ [GestureBegin]\<rparr>"

definition emitGestureEnd :: "detector \<Rightarrow> detector" where
  "emitGestureEnd my = my\<lparr>emitted := emitted my @ [GestureEnd]\<rparr>"

definition toggle_class :: "string \<Rightarrow> string list \<Rightarrow> string list" where
  "toggle_class c cl = (if c \<in> set cl then removeAll c cl else cl @ [c])"

text \<open>
  \<open>setStatus\<close>: \<open>oldStatus !== undefined\<close> holds for \<open>null\<close> too, and toggling \<open>null\<close>
  toggles the class named "null". The text written to the paragraph is left out.
\<close>

definition setStatus :: "string \<Rightarrow> detector \<Rightarrow> detector" where
  "setStatus newStatus my =
     (let oldStatus = status my;
          cl1 = toggle_class (case oldStatus of None \<Rightarrow> ''null'' | Some s \<Rightarrow> s) (classList my);
          cl2 = toggle_class newStatus cl1
      in my\<lparr>status := Some newStatus, classList := cl2\<rparr>)"

text \<open>\<open>window.clearInterval\<close>: nothing happens for \<open>null\<close> or an id that is not live.\<close>

definition clearInterval :: "nat option \<Rightarrow> detector \<Rightarrow> detector" where
  "clearInterval h my =
     (case h of None \<Rightarrow> my
      | Some i \<Rightarrow> my\<lparr>intervals := filter (\<lambda>t. fst t \<noteq> i) (intervals my)\<rparr>)"

text \<open>\<open>window.setInterval\<close>: a new live timer under a fresh id, which is returned.\<close>

definition setInterval :: "pollFn \<Rightarrow> nat \<Rightarrow> detector \<Rightarrow> nat \<times> detector" where
  "setInterval f delay my =
     (nextId my, my\<lparr>intervals := intervals my @ [(nextId my, f, delay)], nextId := nextId my + 1\<rparr>)"

definition REFRESH_RATE_LISTEN :: nat where
  "REFRESH_RATE_LISTEN = 5"

definition REFRESH_RATE_SCAN :: nat where
  "REFRESH_RATE_SCAN = 20"

definition idleMode :: "detector \<Rightarrow> detector" where
  "idleMode my = (let my1 = setStatus ''idle'' my in clearInterval (interval my1) my1)"

definition listenMode :: "detector \<Rightarrow> detector" where
  "listenMode my =
     (let my1 = setStatus ''listening'' my;
          my2 = clearInterval (interval my1) my1;
          (h, my3) = setInterval Detect (1000 div REFRESH_RATE_LISTEN) my2
      in my3\<lparr>interval := Some h\<rparr>)"

definition scanMode :: "detector \<Rightarrow> detector" where
  "scanMode my =
     (let my1 = setStatus ''scanning'' my;
          my2 = clearInterval (interval my1) my1;
          (h, my3) = setInterval Detect (1000 div REFRESH_RATE_SCAN) my2
      in my3\<lparr>interval := Some h\<rparr>)"

text \<open>
  \<open>makeGazeDetector\<close>: \<open>makeGenericDetector\<close> sets the state to "rest" and calls its own
  \<open>idleMode\<close>, which only sets the status; no timer exists yet.
\<close>

definition makeGazeDetector :: "nat \<Rightarrow> detector" where
  "makeGazeDetector firstId =
     setStatus ''idle''
       \<lparr>state = Rest, status = None, interval = None, emitted = [], classList = [],
        intervals = [], nextId = firstId\<rparr>"

datatype mode = IdleMode | ListenMode | ScanMode

fun switch :: "mode \<Rightarrow> detector \<Rightarrow> detector" where
  "switch IdleMode my = idleMode my"
| "switch ListenMode my = listenMode my"
| "switch ScanMode my = scanMode my"

fun switches :: "mode list \<Rightarrow> detector \<Rightarrow> detector" where
  "switches [] my = my"
| "switches (m # ms) my = switches ms (switch m my)"

subsection \<open>detect\<close>

text \<open>
  One tick. The three arguments are what \<open>my.vs.getPixels()\<close>, \<open>my.rest.getPixels()\<close> and
  \<open>my.gaze.getPixels()\<close> return at this tick. An exception of \<open>l1Distance\<close> leaves
  \<open>detect\<close> before anything is emitted or assigned. \<open>&\<close> on two booleans is truthy
  exactly when both hold.
\<close>

definition detect :: "imageData \<Rightarrow> imageData \<Rightarrow> imageData \<Rightarrow> detector \<Rightarrow> jsError + detector" where
  "detect streamPixels restPixels gazePixels my =
     (case l1Distance streamPixels restPixels of
        Inl e \<Rightarrow> Inl e
      | Inr dRest \<Rightarrow>
         (case l1Distance streamPixels gazePixels of
            Inl e \<Rightarrow> Inl e
          | Inr dGaze \<Rightarrow>
             (let newState = (if num_lt dGaze dRest then Gaze else Rest);
                  my1 = (if state my = Rest \<and> newState = Gaze then emitGestureStart my else my);
                  my2 = (if state my1 = Gaze \<and> newState = Rest then emitGestureEnd my1 else my1)
              in Inr (my2\<lparr>state := newState\<rparr>))))"

text \<open>
  A sequence of ticks of the interval timer. A tick whose \<open>detect\<close> throws ends there,
  the detector as it was; the timer goes on with the next tick.
\<close>

type_synonym tick = "imageData \<times> imageData \<times> imageData"

fun ticks :: "tick list \<Rightarrow> detector \<Rightarrow> detector" where
  "ticks [] my = my"
| "ticks ((f, r, g) # ts) my =
     ticks ts (case detect f r g my of Inl e \<Rightarrow> my | Inr my' \<Rightarrow> my')"

text \<open>
  The class of a tick, by the detector's rule: "gaze" when the frame is strictly closer
  to the gaze template, "rest" otherwise; none when the distances cannot be computed.
\<close>

definition classification :: "tick \<Rightarrow> gazeState option" where
  "classification t =
     (case t of (f, r, g) \<Rightarrow>
        (case (l1Distance f r, l1Distance f g) of
           (Inr dRest, Inr dGaze) \<Rightarrow> Some (if num_lt dGaze dRest then Gaze else Rest)
         | _ \<Rightarrow> None))"

text \<open>The event that belongs to one step from class \<open>a\<close> to class \<open>b\<close>.\<close>

fun transition_events :: "gazeState \<times> gazeState \<Rightarrow> gesture list" where
  "transition_events (Rest, Gaze) = [GestureBegin]"
| "transition_events (Gaze, Rest) = [GestureEnd]"
| "transition_events _ = []"

text \<open>The consecutive pairs of a class sequence that starts from class \<open>p\<close>.\<close>

definition steps_from :: "gazeState \<Rightarrow> gazeState list \<Rightarrow> (gazeState \<times> gazeState) list" where
  "steps_from p cs = zip (p # cs) cs"

subsection \<open>Predicates and sample data for the detector\<close>

text \<open>At most one poll timer is live, and it is the one \<open>my.interval\<close> names.\<close>

definition one_timer :: "detector \<Rightarrow> bool" where
  "one_timer my = (intervals my = [] \<or> (\<exists>h f d. intervals my = [(h, f, d)] \<and> interval my = Some h))"

text \<open>An image of one pixel, for the examples.\<close>

definition pixel :: "8 word list \<Rightarrow> imageData" where
  "pixel d = \<lparr>width = 1, height = 1, data = d\<rparr>"

section \<open>The guess menus (wedjat.js and menu-button.js)\<close>

text \<open>
  Both files hold a \<open>makeGuessMenu\<close>. The one of wedjat.js, the older monolithic program,
  keeps the source's names here; the one of the refactored modules carries the suffix
  \<open>_modular\<close>.
\<close>

text \<open>
  The settings of the request that \<open>my.wordnik\<close> hands to \<open>jQuery.ajax\<close>: the url, the
  fields of \<open>data\<close>, \<open>type\<close> and \<open>dataType\<close>.
\<close>

record ajaxQuery =
  url :: string
  minCorpusCount :: nat
  api_key :: string
  caseSensitive :: bool
  limit :: nat
  requestType :: string
  dataType :: string

text \<open>One entry of \<open>data.searchResults\<close>; the program reads its \<open>word\<close>.\<close>

record searchResult =
  word :: string
  count :: nat

text \<open>The reply to the request: \<open>success\<close> is called with the results, or \<open>failure\<close> is.\<close>

datatype reply = Success "searchResult list" | Failure

text \<open>\<open>s.split(d)\<close> for a separator of one character: never empty, \<open>[""]\<close> for the empty string.\<close>

fun split_on :: "char \<Rightarrow> string \<Rightarrow> string list" where
  "split_on d [] = [[]]"
| "split_on d (c # cs) =
     (if c = d then [] # split_on d cs
      else (case split_on d cs of [] \<Rightarrow> [[c]] | t # ts \<Rightarrow> (c # t) # ts))"

text \<open>\<open>inputText.split(" ").slice(-1)[0]\<close>: the last of the pieces.\<close>

definition final_token :: "string \<Rightarrow> string" where
  "final_token inputText = last (split_on CHR '' '' inputText)"

text \<open>
  Modelled from the spec: \<open>util.repeat\<close> and \<open>util.pad\<close> (util.js) are not among the
  sources, and the spec does not describe them; they are modelled from their names, from
  the calls and from the comment at the call ("Pad with proper number of guesses").
  \<open>repeat(x, n)\<close> is the array of \<open>n\<close> copies of \<open>x\<close>; \<open>pad(xs, x, n)\<close> is \<open>xs\<close>
  followed by copies of \<open>x\<close> up to length \<open>n\<close>. What \<open>pad\<close> does with a list longer
  than \<open>n\<close> is not known; here it leaves the list as it is.
\<close>

definition util_repeat :: "'a \<Rightarrow> nat \<Rightarrow> 'a list" where
  "util_repeat x n = replicate n x"

definition util_pad :: "'a list \<Rightarrow> 'a \<Rightarrow> nat \<Rightarrow> 'a list" where
  "util_pad xs x n = xs @ replicate (n - length xs) x"

subsection \<open>makeGuessMenu of wedjat.js\<close>

definition N_GUESSES :: nat where
  "N_GUESSES = 7"

definition MIN_COUNT :: nat where
  "MIN_COUNT = 1000"

definition wordnik :: "string \<Rightarrow> ajaxQuery" where
  "wordnik text =
     \<lparr>url = ''http:api.wordnik.com:80/v4/words.json/search/'' @ text,
      minCorpusCount = MIN_COUNT,
      api_key = ''a8a677e1378da5d7a03532c7b57083a570bdd1254c16f6af3'',
      caseSensitive = True,
      limit = N_GUESSES,
      requestType = ''GET'',
      dataType = ''json''\<rparr>"

text \<open>
  \<open>my.guessWord(inputText, cb)\<close> with the reply the request gets, if one is sent: the
  request sent, if any, and the argument \<open>cb\<close> is called with, if it is called. \<open>failure\<close>
  does not call \<open>cb\<close>.
\<close>

definition guessWord :: "string \<Rightarrow> reply \<Rightarrow> ajaxQuery option \<times> string list option" where
  "guessWord inputText r =
     (let text = final_token inputText
      in if text = [] then (None, Some (util_repeat [] N_GUESSES))
         else (Some (wordnik text),
               (case r of
                  Success searchResults \<Rightarrow>
                    (let guesses = map word (drop 1 searchResults);
                         padded = util_pad guesses [] N_GUESSES
                     in Some padded)
                | Failure \<Rightarrow> None)))"

subsection \<open>makeGuessMenu of menu-button.js\<close>

definition N_GUESSES_modular :: nat where
  "N_GUESSES_modular = 8"

definition MIN_COUNT_modular :: nat where
  "MIN_COUNT_modular = 1000"

definition wordnik_modular :: "string \<Rightarrow> ajaxQuery" where
  "wordnik_modular text =
     \<lparr>url = ''http:api.wordnik.com:80/v4/words.json/search/'' @ text,
      minCorpusCount = MIN_COUNT_modular,
      api_key = ''a8a677e1378da5d7a03532c7b57083a570bdd1254c16f6af3'',
      caseSensitive = False,
      limit = N_GUESSES_modular,
      requestType = ''GET'',
      dataType = ''json''\<rparr>"

definition guessWord_modular :: "string \<Rightarrow> reply \<Rightarrow> ajaxQuery option \<times> string list option" where
  "guessWord_modular inputText r =
     (let text = final_token inputText
      in if text = [] then (None, Some (util_repeat [] N_GUESSES_modular))
         else (Some (wordnik_modular (text @ ''*'')),
               (case r of
                  Success searchResults \<Rightarrow>
                    (let guesses = map word (drop 1 searchResults);
                         padded = util_pad guesses [] N_GUESSES_modular
                     in Some padded)
                | Failure \<Rightarrow> None)))"

section \<open>Menus and buttons (wedjat.js)\<close>

subsection \<open>The menu tree\<close>

type_synonym menuId = nat

datatype menuKind = BranchMenu | LeafMenu

text \<open>
  The button constructors of \<open>my.initButton\<close>, by what \<open>action\<close> does. \<open>TextButton\<close> stands
  for the letter, space, punctuation and guess buttons: they write to the buffer and call
  \<open>cbpressed\<close> at once. A menu selector carries its lower-cased value, the name of the child
  it opens, and its \<open>slide\<close> flag; a return button its \<open>returnDepth\<close>.
\<close>

datatype buttonType =
    MenuSelectorButton string bool
  | StartButton
  | RequestButton
  | TextButton
  | BufferActionButton
  | ReturnButton nat
  | EmailButton
  | NotImplementedButton

text \<open>
  A menu object: \<open>parent\<close> is the back-reference that \<open>setChildren\<close> of the parent sets
  (undefined otherwise), \<open>children\<close> is \<open>my.children\<close> (\<open>null\<close> until \<open>setChildren\<close>),
  \<open>divElem\<close> tells whether the menu has a document element to slide. A guess menu is a
  leaf menu. Menus are named by their position in the list of all menus.
\<close>

record menu =
  kind :: menuKind
  buttons :: "buttonType list"
  parent :: "menuId option"
  children :: "(string \<times> menuId) list option"
  divElem :: bool

definition menu_at :: "menu list \<Rightarrow> menuId \<Rightarrow> menu option" where
  "menu_at cfg m = (if m < length cfg then Some (cfg ! m) else None)"

text \<open>\<open>my.buttons[buttonIx]\<close>: undefined beyond the array.\<close>

definition button_at :: "menu \<Rightarrow> nat \<Rightarrow> buttonType option" where
  "button_at my buttonIx = (if buttonIx < length (buttons my) then Some (buttons my ! buttonIx) else None)"

definition nButtons :: "menu \<Rightarrow> nat" where
  "nButtons my = length (buttons my)"

text \<open>
  \<open>nextButton\<close> is only called from the timeout of a button that was armed, so the menu
  has a button and the modulus is not zero.
\<close>

definition nextButton :: "menu \<Rightarrow> nat \<Rightarrow> nat" where
  "nextButton my ix = (ix + 1) mod nButtons my"

definition isLastButton :: "menu \<Rightarrow> nat \<Rightarrow> bool" where
  "isLastButton my buttonIx = (int buttonIx = int (nButtons my) - 1)"

definition LEAF_LOOPS :: nat where
  "LEAF_LOOPS = 2"

definition isLastLoop :: "nat \<Rightarrow> bool" where
  "isLastLoop loopIx = (int loopIx = int LEAF_LOOPS - 1)"

definition nextLoop :: "menu \<Rightarrow> nat \<Rightarrow> nat \<Rightarrow> nat" where
  "nextLoop my buttonIx loopIx = (if isLastButton my buttonIx then loopIx + 1 else loopIx)"

subsection \<open>The event loop\<close>

text \<open>
  One call of \<open>Button.scan\<close> creates the closures \<open>onPress\<close> and \<open>onTimeout\<close>. An \<open>arm\<close>
  names that call: a fresh number, and what the closures hold: the menu, the index of
  the button and the loop index that \<open>scanAt\<close> was called with (0 in a branch menu, whose
  \<open>scanAt\<close> has no loop index).
\<close>

record arm =
  armId :: nat
  amenu :: menuId
  aix :: nat
  aloop :: nat

text \<open>The callbacks that wait in the event loop: timers, ends of utterances, completions.\<close>

datatype callback =
    OnTimeout arm
  | AfterPress arm
  | AfterAnnouncement arm
  | StopOscillator
  | AfterBeep arm
  | AfterSpeech arm
  | AfterRead arm
  | AfterSend arm
  | CbPressed arm

text \<open>What the program does that can be seen or heard, and the marks of the race.\<close>

datatype obs =
    Toggle menuId nat
  | Announce menuId nat
  | Armed arm
  | Pressed arm
  | TimedOut arm
  | Action arm
  | SlideUp menuId
  | SlideDown menuId
  | Scan menuId
  | BufferWrite arm
  | BufferExecute arm
  | Beep arm
  | Speak arm
  | SendMail arm
  | Uncaught jsError

text \<open>
  The state between two events. \<open>gazeListeners\<close> are the \<open>onPress\<close> closures registered
  with the detector, each with the timer handle its variable \<open>timeout\<close> holds;
  \<open>extendedGazeListeners\<close> are the \<open>start\<close> methods of start buttons, each named by menu
  and index; \<open>pending\<close> are the callbacks waiting, each under its handle; \<open>trace\<close> is what
  has happened, oldest first.
\<close>

record world =
  gazeListeners :: "(arm \<times> nat) list"
  extendedGazeListeners :: "(menuId \<times> nat) list"
  pending :: "(nat \<times> callback) list"
  nextHandle :: nat
  nextArm :: nat
  trace :: "obs list"

definition observe :: "obs list \<Rightarrow> world \<Rightarrow> world" where
  "observe os w = w\<lparr>trace := trace w @ os\<rparr>"

text \<open>\<open>setTimeout\<close>, and every other way to leave a callback waiting: a fresh handle.\<close>

definition setTimeout :: "callback \<Rightarrow> world \<Rightarrow> world" where
  "setTimeout c w = w\<lparr>pending := pending w @ [(nextHandle w, c)], nextHandle := nextHandle w + 1\<rparr>"

definition clearTimeout :: "nat \<Rightarrow> world \<Rightarrow> world" where
  "clearTimeout h w = w\<lparr>pending := filter (\<lambda>t. fst t \<noteq> h) (pending w)\<rparr>"

text \<open>
  Modelled from the spec: the detector of wedjat.js (io.js) is not among the sources. Its
  \<open>addGazeListener\<close> and \<open>removeGazeListener\<close> register and deregister one confirmation
  listener; a gesture calls the listeners registered when it arrives.
\<close>

definition addGazeListener :: "arm \<times> nat \<Rightarrow> world \<Rightarrow> world" where
  "addGazeListener l w = w\<lparr>gazeListeners := gazeListeners w @ [l]\<rparr>"

definition removeGazeListener :: "arm \<Rightarrow> world \<Rightarrow> world" where
  "removeGazeListener a w = w\<lparr>gazeListeners := filter (\<lambda>l. fst l \<noteq> a) (gazeListeners w)\<rparr>"

definition addExtendedGazeListener :: "menuId \<times> nat \<Rightarrow> world \<Rightarrow> world" where
  "addExtendedGazeListener s w = w\<lparr>extendedGazeListeners := extendedGazeListeners w @ [s]\<rparr>"

definition removeExtendedGazeListener :: "menuId \<times> nat \<Rightarrow> world \<Rightarrow> world" where
  "removeExtendedGazeListener s w =
     w\<lparr>extendedGazeListeners := filter (\<lambda>l. l \<noteq> s) (extendedGazeListeners w)\<rparr>"

text \<open>An exception nobody catches ends the callback that runs.\<close>

definition uncaught :: "jsError \<Rightarrow> world \<Rightarrow> world" where
  "uncaught e w = observe [Uncaught e] w"

subsection \<open>Button.scan\<close>

text \<open>
  The initialization part of \<open>that.scan\<close>: toggle, announce, register \<open>onPress\<close>, start the
  deadline. The durations (\<open>my.slider.getms()\<close>, \<open>PRESS_WAIT\<close>) do not matter to the order
  of events and are left out.
\<close>

definition button_scan :: "menuId \<Rightarrow> nat \<Rightarrow> nat \<Rightarrow> world \<Rightarrow> world" where
  "button_scan m ix loopIx w =
     (let a = \<lparr>armId = nextArm w, amenu = m, aix = ix, aloop = loopIx\<rparr>;
          w1 = observe [Toggle m ix, Announce m ix, Armed a] (w\<lparr>nextArm := nextArm w + 1\<rparr>);
          timeout = nextHandle w1;
          w2 = addGazeListener (a, timeout) w1
      in setTimeout (OnTimeout a) w2)"

subsection \<open>Menus: scan and scanAt\<close>

definition slideUp :: "menu list \<Rightarrow> menuId \<Rightarrow> world \<Rightarrow> world" where
  "slideUp cfg m w =
     (case menu_at cfg m of None \<Rightarrow> w
      | Some my \<Rightarrow> if divElem my then observe [SlideUp m] w else w)"

definition slideDown :: "menu list \<Rightarrow> menuId \<Rightarrow> world \<Rightarrow> world" where
  "slideDown cfg m w =
     (case menu_at cfg m of None \<Rightarrow> w
      | Some my \<Rightarrow> if divElem my then observe [SlideDown m] w else w)"

text \<open>
  \<open>my.scanAt\<close> of both kinds of menu: \<open>button.scan\<close> on \<open>my.buttons[buttonIx]\<close>, a
  \<open>TypeError\<close> when there is no such button. The callbacks \<open>cbpassed\<close> and \<open>cbpressed\<close>
  that it hands to the button are \<open>cbpassed\<close> and \<open>cbpressed\<close> below, at the arm.
\<close>

definition scanAt :: "menu list \<Rightarrow> menuId \<Rightarrow> nat \<Rightarrow> nat \<Rightarrow> world \<Rightarrow> world" where
  "scanAt cfg m buttonIx loopIx w =
     (case menu_at cfg m of None \<Rightarrow> uncaught TypeError w
      | Some my \<Rightarrow>
         (case button_at my buttonIx of None \<Rightarrow> uncaught TypeError w
          | Some button \<Rightarrow>
             button_scan m buttonIx (case kind my of BranchMenu \<Rightarrow> 0 | LeafMenu \<Rightarrow> loopIx) w))"

text \<open>\<open>that.scan\<close> of a menu: slide down, \<open>my.scanAt(0, 0)\<close>.\<close>

definition menu_scan :: "menu list \<Rightarrow> menuId \<Rightarrow> world \<Rightarrow> world" where
  "menu_scan cfg m w =
     (case menu_at cfg m of None \<Rightarrow> uncaught TypeError w
      | Some my \<Rightarrow> scanAt cfg m 0 0 (slideDown cfg m (observe [Scan m] w)))"

text \<open>
  \<open>cbpressed\<close>: of a branch menu, \<open>that.scan\<close>; of a leaf menu, slide up and scan the
  parent.
\<close>

definition cbpressed :: "menu list \<Rightarrow> arm \<Rightarrow> world \<Rightarrow> world" where
  "cbpressed cfg a w =
     (case menu_at cfg (amenu a) of None \<Rightarrow> uncaught TypeError w
      | Some my \<Rightarrow>
         (case kind my of
            BranchMenu \<Rightarrow> menu_scan cfg (amenu a) w
          | LeafMenu \<Rightarrow>
             (let w1 = slideUp cfg (amenu a) w
              in case parent my of None \<Rightarrow> uncaught TypeError w1
                 | Some p \<Rightarrow> menu_scan cfg p w1)))"

text \<open>
  \<open>cbpassed\<close>: of a branch menu, scan the next button; of a leaf menu, \<open>cbpressed\<close> after
  the last button of the last loop, \<open>cbnext\<close> otherwise.
\<close>

definition cbpassed :: "menu list \<Rightarrow> arm \<Rightarrow> world \<Rightarrow> world" where
  "cbpassed cfg a w =
     (case menu_at cfg (amenu a) of None \<Rightarrow> uncaught TypeError w
      | Some my \<Rightarrow>
         (case kind my of
            BranchMenu \<Rightarrow> scanAt cfg (amenu a) (nextButton my (aix a)) 0 w
          | LeafMenu \<Rightarrow>
             if isLastButton my (aix a) \<and> isLastLoop (aloop a) then cbpressed cfg a w
             else scanAt cfg (amenu a) (nextButton my (aix a)) (nextLoop my (aix a) (aloop a)) w))"

subsection \<open>Actions\<close>

text \<open>
  \<open>my.getReturnMenu\<close>: \<open>depth\<close> steps up the parents. The menu may be undefined
  (\<open>None\<close>); reading \<open>parent\<close> of an undefined menu throws.
\<close>

fun getReturnMenu :: "menu list \<Rightarrow> menuId option \<Rightarrow> nat \<Rightarrow> jsError + menuId option" where
  "getReturnMenu cfg menu 0 = Inr menu"
| "getReturnMenu cfg menu (Suc depth) =
     (case menu of None \<Rightarrow> Inl TypeError
      | Some m \<Rightarrow>
         (case menu_at cfg m of None \<Rightarrow> Inl TypeError
          | Some my \<Rightarrow> getReturnMenu cfg (parent my) depth))"

text \<open>
  \<open>that.action\<close> of the button of an arm. A return button of depth 0 asks for the menu
  at depth -1, which never meets \<open>depth === 0\<close>: the walk up the parents ends in an
  exception. Modelled from the spec: \<open>buffer.executeAction\<close> (io.js), \<open>sendMail\<close> and
  \<open>util.read\<close> are not among the sources; each calls the callback it is given once, later.
\<close>

definition action :: "menu list \<Rightarrow> arm \<Rightarrow> world \<Rightarrow> world" where
  "action cfg a w =
     (case menu_at cfg (amenu a) of None \<Rightarrow> uncaught TypeError w
      | Some my \<Rightarrow>
     (case button_at my (aix a) of None \<Rightarrow> uncaught TypeError w
      | Some button \<Rightarrow>
     (case button of
        MenuSelectorButton nextMenuName slide \<Rightarrow>
          (case children my of None \<Rightarrow> uncaught TypeError w
           | Some cs \<Rightarrow>
              (let nextMenu = map_of cs nextMenuName;
                   w1 = (if slide then slideUp cfg (amenu a) w else w)
               in case nextMenu of None \<Rightarrow> uncaught TypeError w1
                  | Some n \<Rightarrow> menu_scan cfg n w1))
      | StartButton \<Rightarrow>
          observe [Toggle (amenu a) (aix a)] (addExtendedGazeListener (amenu a, aix a) w)
      | RequestButton \<Rightarrow>
          setTimeout (AfterBeep a) (setTimeout StopOscillator (observe [Beep a] w))
      | TextButton \<Rightarrow> cbpressed cfg a (observe [BufferWrite a] w)
      | BufferActionButton \<Rightarrow> setTimeout (CbPressed a) (observe [BufferExecute a] w)
      | ReturnButton depth \<Rightarrow>
          (case getReturnMenu cfg (Some (amenu a)) depth of Inl e \<Rightarrow> uncaught e w
           | Inr returnMenu \<Rightarrow>
              (case (if depth = 0 then Inl TypeError
                     else getReturnMenu cfg (Some (amenu a)) (depth - 1)) of
                 Inl e \<Rightarrow> uncaught e w
               | Inr majorMenu \<Rightarrow>
                  (case majorMenu of None \<Rightarrow> uncaught TypeError w
                   | Some mm \<Rightarrow>
                      (let w1 = slideUp cfg mm w
                       in case returnMenu of None \<Rightarrow> uncaught TypeError w1
                          | Some rm \<Rightarrow> menu_scan cfg rm w1))))
      | EmailButton \<Rightarrow> setTimeout (AfterSend a) (observe [SendMail a] w)
      | NotImplementedButton \<Rightarrow> setTimeout (AfterRead a) (observe [Speak a] w))))"

subsection \<open>The closures of Button.scan and of the actions\<close>

definition onTimeout :: "menu list \<Rightarrow> arm \<Rightarrow> world \<Rightarrow> world" where
  "onTimeout cfg a w =
     cbpassed cfg a (removeGazeListener a (observe [TimedOut a, Toggle (amenu a) (aix a)] w))"

definition onPress :: "arm \<times> nat \<Rightarrow> world \<Rightarrow> world" where
  "onPress l w =
     (case l of (a, timeout) \<Rightarrow>
        setTimeout (AfterPress a) (clearTimeout timeout (removeGazeListener a (observe [Pressed a] w))))"

definition afterPress :: "arm \<Rightarrow> world \<Rightarrow> world" where
  "afterPress a w = setTimeout (AfterAnnouncement a) (observe [Announce (amenu a) (aix a)] w)"

definition afterAnnouncement :: "menu list \<Rightarrow> arm \<Rightarrow> world \<Rightarrow> world" where
  "afterAnnouncement cfg a w = action cfg a (observe [Toggle (amenu a) (aix a), Action a] w)"

text \<open>\<open>that.start\<close> of a start button: the extended gesture starts the scan of its menu.\<close>

definition start :: "menu list \<Rightarrow> menuId \<times> nat \<Rightarrow> world \<Rightarrow> world" where
  "start cfg s w =
     (case s of (m, ix) \<Rightarrow>
        observe [Toggle m ix] (menu_scan cfg m (removeExtendedGazeListener s w)))"

fun run_callback :: "menu list \<Rightarrow> callback \<Rightarrow> world \<Rightarrow> world" where
  "run_callback cfg (OnTimeout a) w = onTimeout cfg a w"
| "run_callback cfg (AfterPress a) w = afterPress a w"
| "run_callback cfg (AfterAnnouncement a) w = afterAnnouncement cfg a w"
| "run_callback cfg StopOscillator w = w"
| "run_callback cfg (AfterBeep a) w = setTimeout (AfterSpeech a) (observe [Speak a] w)"
| "run_callback cfg (AfterSpeech a) w = setTimeout (CbPressed a) w"
| "run_callback cfg (AfterRead a) w = setTimeout (CbPressed a) w"
| "run_callback cfg (AfterSend a) w = setTimeout (CbPressed a) (observe [Speak a] w)"
| "run_callback cfg (CbPressed a) w = cbpressed cfg a w"

subsection \<open>Events\<close>

text \<open>
  A short gesture, an extended gesture, or the callback waiting under a handle comes due.
  A gesture calls the listeners that are registered when it arrives, in order. A handle
  under which nothing waits (a cleared timer) does nothing.
\<close>

datatype event = Gesture | ExtendedGesture | Fire nat

fun step :: "menu list \<Rightarrow> event \<Rightarrow> world \<Rightarrow> world" where
  "step cfg Gesture w = foldl (\<lambda>w l. onPress l w) w (gazeListeners w)"
| "step cfg ExtendedGesture w = foldl (\<lambda>w s. start cfg s w) w (extendedGazeListeners w)"
| "step cfg (Fire h) w =
     (case map_of (pending w) h of None \<Rightarrow> w
      | Some c \<Rightarrow> run_callback cfg c (clearTimeout h w))"

fun run :: "menu list \<Rightarrow> event list \<Rightarrow> world \<Rightarrow> world" where
  "run cfg [] w = w"
| "run cfg (e # es) w = run cfg es (step cfg e w)"

text \<open>
  The state after \<open>setup\<close>: every start button has registered its \<open>start\<close> method for the
  extended gesture; nothing else waits.
\<close>

definition startButtons :: "menu list \<Rightarrow> (menuId \<times> nat) list" where
  "startButtons cfg =
     concat (map (\<lambda>m. map (\<lambda>ix. (m, ix))
                       (filter (\<lambda>ix. buttons (cfg ! m) ! ix = StartButton) [0..<length (buttons (cfg ! m))]))
                 [0..<length cfg])"

definition initial_world :: "menu list \<Rightarrow> world" where
  "initial_world cfg =
     \<lparr>gazeListeners = [], extendedGazeListeners = startButtons cfg, pending = [],
      nextHandle = 0, nextArm = 0, trace = []\<rparr>"


subsection \<open>The invariant of the race\<close>

text \<open>
  An arm listens while its \<open>onPress\<close> is registered; its deadline is pending while its
  \<open>onTimeout\<close> waits.
\<close>

definition listening :: "arm \<Rightarrow> world \<Rightarrow> bool" where
  "listening a w = (a \<in> fst ` set (gazeListeners w))"

definition deadline_pending :: "arm \<Rightarrow> world \<Rightarrow> bool" where
  "deadline_pending a w = (OnTimeout a \<in> snd ` set (pending w))"

text \<open>The observations that are not marks of the race.\<close>

fun neutral :: "obs \<Rightarrow> bool" where
  "neutral (Armed a) = False"
| "neutral (Pressed a) = False"
| "neutral (TimedOut a) = False"
| "neutral (Action a) = False"
| "neutral _ = True"

text \<open>The button of an arm exists.\<close>

definition valid_arm :: "menu list \<Rightarrow> arm \<Rightarrow> bool" where
  "valid_arm cfg a = (amenu a < length cfg \<and> aix a < length (buttons (cfg ! amenu a)))"

text \<open>
  What holds of a waiting callback: a deadline waits under the handle its listener holds;
  the callbacks after a press wait only once the press is marked.
\<close>

fun entry_ok :: "world \<Rightarrow> nat \<times> callback \<Rightarrow> bool" where
  "entry_ok w (h, OnTimeout a) = ((a, h) \<in> set (gazeListeners w))"
| "entry_ok w (h, AfterPress a) = (Pressed a \<in> set (trace w))"
| "entry_ok w (h, AfterAnnouncement a) = (Pressed a \<in> set (trace w))"
| "entry_ok w (h, c) = True"

text \<open>
  The invariant. Every registered listener belongs to an arm that was armed, whose button
  exists, whose deadline waits and for which neither outcome has run; handles are fresh
  and distinct; arms are registered once; and the marks in the trace are consistent: an
  outcome needs the arming, the action needs the press, press and timeout exclude each
  other, and an arm with neither outcome is still registered.
\<close>

definition listeners_ok :: "menu list \<Rightarrow> world \<Rightarrow> bool" where
  "listeners_ok cfg w =
     (\<forall>l \<in> set (gazeListeners w).
         armId (fst l) < nextArm w \<and> valid_arm cfg (fst l) \<and> Armed (fst l) \<in> set (trace w) \<and>
         (snd l, OnTimeout (fst l)) \<in> set (pending w) \<and>
         Pressed (fst l) \<notin> set (trace w) \<and> TimedOut (fst l) \<notin> set (trace w))"

definition handles_ok :: "world \<Rightarrow> bool" where
  "handles_ok w = ((\<forall>t \<in> set (pending w). fst t < nextHandle w) \<and> distinct (map fst (pending w)))"

definition pending_ok :: "world \<Rightarrow> bool" where
  "pending_ok w = (\<forall>t \<in> set (pending w). entry_ok w t)"

definition trace_ok :: "world \<Rightarrow> bool" where
  "trace_ok w =
     ((\<forall>a. Armed a \<in> set (trace w) \<longrightarrow> armId a < nextArm w) \<and>
      (\<forall>a. Pressed a \<in> set (trace w) \<or> TimedOut a \<in> set (trace w) \<longrightarrow> Armed a \<in> set (trace w)) \<and>
      (\<forall>a. Action a \<in> set (trace w) \<longrightarrow> Pressed a \<in> set (trace w)) \<and>
      (\<forall>a. Pressed a \<in> set (trace w) \<longrightarrow> TimedOut a \<notin> set (trace w)) \<and>
      (\<forall>a. Armed a \<in> set (trace w) \<longrightarrow>
          a \<in> fst ` set (gazeListeners w) \<or> Pressed a \<in> set (trace w) \<or> TimedOut a \<in> set (trace w)))"

definition race_inv :: "menu list \<Rightarrow> world \<Rightarrow> bool" where
  "race_inv cfg w =
     (listeners_ok cfg w \<and> handles_ok w \<and> pending_ok w \<and>
      distinct (map fst (gazeListeners w)) \<and> trace_ok w)"

text \<open>
  A small menu tree for the examples: a branch menu of four buttons, whose selector opens
  a leaf menu of three text buttons.
\<close>

definition sample_menus :: "menu list" where
  "sample_menus =
     [\<lparr>kind = BranchMenu,
       buttons = [MenuSelectorButton ''letters'' False, TextButton, StartButton,
                  NotImplementedButton],
       parent = None, children = Some [(''letters'', 1)], divElem = True\<rparr>,
      \<lparr>kind = LeafMenu, buttons = [TextButton, TextButton, TextButton],
       parent = Some 0, children = None, divElem = True\<rparr>]"

text \<open>How many deadlines have come due, and how often the scan of a menu was started.\<close>

fun is_timeout :: "obs \<Rightarrow> bool" where
  "is_timeout (TimedOut a) = True"
| "is_timeout _ = False"

definition timeouts :: "world \<Rightarrow> nat" where
  "timeouts w = length (filter is_timeout (trace w))"

definition scans :: "menuId \<Rightarrow> world \<Rightarrow> nat" where
  "scans p w = count_list (trace w) (Scan p)"

text \<open>How often a menu was slid up.\<close>

definition slideUps :: "menuId \<Rightarrow> world \<Rightarrow> nat" where
  "slideUps m w = count_list (trace w) (SlideUp m)"

text \<open>
  The buttons whose action calls \<open>cbpressed\<close> when it is done: at once (text), or from a
  callback that waits (request, buffer action, email, not implemented). A menu selector
  and a return button scan another menu instead; the start button does neither.
\<close>

fun calls_back :: "buttonType \<Rightarrow> bool" where
  "calls_back TextButton = True"
| "calls_back RequestButton = True"
| "calls_back BufferActionButton = True"
| "calls_back EmailButton = True"
| "calls_back NotImplementedButton = True"
| "calls_back _ = False"

text \<open>
  The events from the gesture that confirms an armed button to the end of its action,
  where \<open>n\<close> is the next free handle at the gesture: the gesture, the wait after the
  press, the announcement, and then the callbacks the action leaves waiting, in turn. The
  request button also sets the timer that stops the beep, under \<open>n + 2\<close>, which the scan
  does not wait for.
\<close>

fun completion_events :: "buttonType \<Rightarrow> nat \<Rightarrow> event list" where
  "completion_events BufferActionButton n = [Gesture, Fire n, Fire (n + 1), Fire (n + 2)]"
| "completion_events NotImplementedButton n =
     [Gesture, Fire n, Fire (n + 1), Fire (n + 2), Fire (n + 3)]"
| "completion_events EmailButton n = [Gesture, Fire n, Fire (n + 1), Fire (n + 2), Fire (n + 3)]"
| "completion_events RequestButton n =
     [Gesture, Fire n, Fire (n + 1), Fire (n + 3), Fire (n + 4), Fire (n + 5)]"
| "completion_events _ n = [Gesture, Fire n, Fire (n + 1)]"

text \<open>The number of handles these events use up.\<close>

fun handles_used :: "buttonType \<Rightarrow> nat" where
  "handles_used BufferActionButton = 3"
| "handles_used NotImplementedButton = 4"
| "handles_used EmailButton = 4"
| "handles_used RequestButton = 6"
| "handles_used _ = 2"

text \<open>Every waiting callback has a handle below the next free one.\<close>

definition bounded :: "world \<Rightarrow> bool" where
  "bounded w = (\<forall>t \<in> set (pending w). fst t < nextHandle w)"

text \<open>The state after the callback set last has come due: its handle is used up.\<close>

definition bump :: "world \<Rightarrow> world" where
  "bump w = w\<lparr>nextHandle := nextHandle w + 1\<rparr>"

text \<open>
  The state in which the action of a confirmed arm starts: after \<open>onPress\<close>, \<open>afterPress\<close>
  and the first two statements of \<open>afterAnnouncement\<close>.
\<close>

definition confirmed :: "arm \<Rightarrow> nat \<Rightarrow> world \<Rightarrow> world" where
  "confirmed a h w =
     observe [Toggle (amenu a) (aix a), Action a]
       (bump (observe [Announce (amenu a) (aix a)]
          (bump (clearTimeout h (removeGazeListener a (observe [Pressed a] w))))))"

section \<open>Properties of the gaze detector\<close>

subsection \<open>Distances\<close>

lemma checkDimensions_mismatch:
  "width img1 \<noteq> width img2 \<or> height img1 \<noteq> height img2 \<Longrightarrow>
   checkDimensions img1 img2 = Inl DimensionError"
  by (auto simp: checkDimensions_def)

lemma l1Distance_mismatch:
  "width img1 \<noteq> width img2 \<or> height img1 \<noteq> height img2 \<Longrightarrow>
   l1Distance img1 img2 = Inl DimensionError"
  by (simp add: l1Distance_def checkDimensions_mismatch)

lemma l1Distance_match:
  "width img1 = width img2 \<Longrightarrow> height img1 = height img2 \<Longrightarrow>
   l1Distance img1 img2 =
     Inr (l1_loop (data img1) (data img2) (width img1 * height img1 * 4) 0 (Num 0))"
  by (simp add: l1Distance_def checkDimensions_def)

lemma l1Distance_error: "l1Distance img1 img2 = Inl e \<Longrightarrow> e = DimensionError"
  by (auto simp: l1Distance_def checkDimensions_def Let_def split: if_splits)

lemma l1_loop_skip:
  "i < n \<Longrightarrow> i mod 4 = 3 \<Longrightarrow> l1_loop x1 x2 n i d = l1_loop x1 x2 n (Suc i) d"
  by (subst l1_loop.simps) simp

lemma l1_loop_add:
  "i < n \<Longrightarrow> i mod 4 \<noteq> 3 \<Longrightarrow> i < length x1 \<Longrightarrow> i < length x2 \<Longrightarrow>
   l1_loop x1 x2 n i (Num d) =
   l1_loop x1 x2 n (Suc i) (Num (d + \<bar>uint (x1 ! i) - uint (x2 ! i)\<bar>))"
  by (subst l1_loop.simps) (simp add: at_def)

lemma l1_loop_done: "\<not> i < n \<Longrightarrow> l1_loop x1 x2 n i d = d"
  by (subst l1_loop.simps) simp

lemma sum_three: "(\<Sum>c < (3::nat). f c) = f 0 + f 1 + (f 2 :: int)"
  by (simp add: numeral_3_eq_3 numeral_2_eq_2)

lemma l1_loop_pixel:
  assumes "4 * p + 4 \<le> n" "n \<le> length x1" "n \<le> length x2"
  shows "l1_loop x1 x2 n (4 * p) (Num d) =
         l1_loop x1 x2 n (4 * (p + 1))
           (Num (d + (\<Sum>c < 3. \<bar>uint (x1 ! (4 * p + c)) - uint (x2 ! (4 * p + c))\<bar>)))"
proof -
  have m: "(4 * p) mod 4 \<noteq> 3" "Suc (4 * p) mod 4 \<noteq> 3" "Suc (Suc (4 * p)) mod 4 \<noteq> 3"
       "Suc (Suc (Suc (4 * p))) mod 4 = 3"
    by presburger+
  have e: "4 * (p + 1) = Suc (Suc (Suc (Suc (4 * p))))"
    by simp
  have "l1_loop x1 x2 n (4 * p) (Num d) =
        l1_loop x1 x2 n (Suc (Suc (Suc (Suc (4 * p)))))
          (Num (d + (\<Sum>c < 3. \<bar>uint (x1 ! (4 * p + c)) - uint (x2 ! (4 * p + c))\<bar>)))"
    using assms m
    by (simp add: l1_loop_add l1_loop_skip sum_three add.assoc)
  then show ?thesis
    by (simp only: e)
qed

lemma l1_loop_pixels:
  assumes "n * 4 \<le> length x1" "n * 4 \<le> length x2" "p \<le> n"
  shows "l1_loop x1 x2 (n * 4) (4 * p) (Num d) =
         Num (d + (\<Sum>q = p..<n. \<Sum>c < 3. \<bar>uint (x1 ! (4 * q + c)) - uint (x2 ! (4 * q + c))\<bar>))"
  using assms
proof (induction "n - p" arbitrary: p d)
  case 0
  then have "p = n" by simp
  then show ?case by (simp add: l1_loop_done)
next
  case (Suc k)
  then have lt: "p < n" and k: "k = n - (p + 1)" and le: "p + 1 \<le> n" by simp_all
  have "l1_loop x1 x2 (n * 4) (4 * p) (Num d) =
        l1_loop x1 x2 (n * 4) (4 * (p + 1))
          (Num (d + (\<Sum>c < 3. \<bar>uint (x1 ! (4 * p + c)) - uint (x2 ! (4 * p + c))\<bar>)))"
    using lt Suc.prems by (intro l1_loop_pixel) simp_all
  also have "\<dots> = Num (d + (\<Sum>c < 3. \<bar>uint (x1 ! (4 * p + c)) - uint (x2 ! (4 * p + c))\<bar>)
      + (\<Sum>q = p + 1..<n. \<Sum>c < 3. \<bar>uint (x1 ! (4 * q + c)) - uint (x2 ! (4 * q + c))\<bar>))"
    using Suc.hyps(1)[OF k _ _ le] Suc.prems by simp
  finally show ?case using lt by (simp add: sum.atLeast_Suc_lessThan)
qed

lemma l1Distance_spec:
  assumes "wf_image img1" "wf_image img2" "width img1 = width img2" "height img1 = height img2"
  shows "l1Distance img1 img2 = Inr (Num (spec_distance img1 img2))"
proof -
  have "l1_loop (data img1) (data img2) (width img1 * height img1 * 4) (4 * 0) (Num 0) =
        Num (0 + (\<Sum>q = 0..<width img1 * height img1. \<Sum>c < 3.
           \<bar>uint (data img1 ! (4 * q + c)) - uint (data img2 ! (4 * q + c))\<bar>))"
    using assms by (intro l1_loop_pixels) (simp_all add: wf_image_def)
  then show ?thesis
    using assms by (simp add: l1Distance_match spec_distance_def channel_diff_def atLeast0LessThan)
qed

subsection \<open>Ticks and events\<close>

lemma num_lt_irrefl: "\<not> num_lt d d"
  by (cases d) simp_all

lemma detect_classified:
  "classification (f, r, g) = Some c \<Longrightarrow>
   detect f r g my = Inr (my\<lparr>emitted := emitted my @ transition_events (state my, c), state := c\<rparr>)"
  by (cases "state my")
     (auto simp: classification_def detect_def emitGestureStart_def emitGestureEnd_def Let_def
           split: sum.splits if_splits)

lemma detect_unclassified:
  "classification (f, r, g) = None \<Longrightarrow> \<exists>e. detect f r g my = Inl e"
  by (auto simp: classification_def detect_def split: sum.splits)

lemma ticks_classified:
  "classification (f, r, g) = Some c \<Longrightarrow>
   ticks ((f, r, g) # ts) my =
   ticks ts (my\<lparr>emitted := emitted my @ transition_events (state my, c), state := c\<rparr>)"
  by (simp add: detect_classified)

lemma ticks_unclassified:
  "classification (f, r, g) = None \<Longrightarrow> ticks ((f, r, g) # ts) my = ticks ts my"
  using detect_unclassified[of f r g my] by auto

lemma ticks_emitted:
  "emitted (ticks ts my) =
   emitted my @ concat (map transition_events (steps_from (state my) (List.map_filter classification ts)))"
proof (induction ts arbitrary: my)
  case Nil
  show ?case by (simp add: steps_from_def map_filter_simps)
next
  case (Cons t ts)
  obtain f r g where t: "t = (f, r, g)" by (cases t)
  show ?case
  proof (cases "classification (f, r, g)")
    case None
    then show ?thesis
      using Cons.IH[of my] ticks_unclassified[of f r g ts my]
      by (simp add: t map_filter_simps del: ticks.simps)
  next
    case (Some c)
    then show ?thesis
      using Cons.IH[of "my\<lparr>emitted := emitted my @ transition_events (state my, c), state := c\<rparr>"]
      by (simp add: t detect_classified[OF Some] map_filter_simps steps_from_def)
  qed
qed

lemma ticks_state:
  "state (ticks ts my) = last (state my # List.map_filter classification ts)"
proof (induction ts arbitrary: my)
  case Nil
  show ?case by (simp add: map_filter_simps)
next
  case (Cons t ts)
  obtain f r g where t: "t = (f, r, g)" by (cases t)
  show ?case
  proof (cases "classification (f, r, g)")
    case None
    then show ?thesis
      using Cons.IH[of my] ticks_unclassified[of f r g ts my]
      by (simp add: t map_filter_simps del: ticks.simps)
  next
    case (Some c)
    then show ?thesis
      using Cons.IH[of "my\<lparr>emitted := emitted my @ transition_events (state my, c), state := c\<rparr>"]
      by (simp add: t detect_classified[OF Some] map_filter_simps)
  qed
qed

lemma ticks_append: "ticks (ts @ us) my = ticks us (ticks ts my)"
  by (induction ts arbitrary: my) auto

lemma count_begin:
  "count_list (concat (map transition_events ss)) GestureBegin = count_list ss (Rest, Gaze)"
proof (induction ss)
  case Nil
  show ?case by simp
next
  case (Cons s ss)
  obtain a b where "s = (a, b)" by (cases s)
  with Cons show ?case by (cases a; cases b) simp_all
qed

lemma count_end:
  "count_list (concat (map transition_events ss)) GestureEnd = count_list ss (Gaze, Rest)"
proof (induction ss)
  case Nil
  show ?case by simp
next
  case (Cons s ss)
  obtain a b where "s = (a, b)" by (cases s)
  with Cons show ?case by (cases a; cases b) simp_all
qed

lemma made_state: "state (makeGazeDetector n) = Rest"
  by (simp add: makeGazeDetector_def setStatus_def Let_def)

lemma made_emitted: "emitted (makeGazeDetector n) = []"
  by (simp add: makeGazeDetector_def setStatus_def Let_def)

lemma all_rest_classes:
  "\<forall>f \<in> set fs. classification (f, r, g) = Some Rest \<Longrightarrow>
   List.map_filter classification (map (\<lambda>f. (f, r, g)) fs) = replicate (length fs) Rest"
  by (induction fs) (simp_all add: map_filter_simps)

lemma pixel_fields [simp]: "width (pixel d) = 1" "height (pixel d) = 1" "data (pixel d) = d"
  by (simp_all add: pixel_def)

lemma spec_distance_pixel:
  "spec_distance (pixel [a, b, c, t]) (pixel [a', b', c', t']) =
   \<bar>uint a - uint a'\<bar> + \<bar>uint b - uint b'\<bar> + \<bar>uint c - uint c'\<bar>"
  by (simp add: spec_distance_def channel_diff_def sum_three)

lemma classification_pixel:
  "classification (pixel [a, b, c, t], pixel [a1, b1, c1, t1], pixel [a2, b2, c2, t2]) =
   Some (if \<bar>uint a - uint a2\<bar> + \<bar>uint b - uint b2\<bar> + \<bar>uint c - uint c2\<bar>
            < \<bar>uint a - uint a1\<bar> + \<bar>uint b - uint b1\<bar> + \<bar>uint c - uint c1\<bar>
         then Gaze else Rest)"
proof -
  have w: "wf_image (pixel [x, y, z, u])" for x y z u
    by (simp add: wf_image_def)
  have "l1Distance (pixel [a, b, c, t]) (pixel [a1, b1, c1, t1]) =
          Inr (Num (spec_distance (pixel [a, b, c, t]) (pixel [a1, b1, c1, t1])))"
       "l1Distance (pixel [a, b, c, t]) (pixel [a2, b2, c2, t2]) =
          Inr (Num (spec_distance (pixel [a, b, c, t]) (pixel [a2, b2, c2, t2])))"
    by (simp_all add: l1Distance_spec w)
  then show ?thesis
    by (simp add: classification_def spec_distance_pixel)
qed

text \<open>
  Claim C2. The detector starts at "rest". Over any sequence of ticks, the events it emits
  are, in order, one "gestureBegin" for each step of the class sequence from rest to gaze
  and one "gestureEnd" for each step from gaze to rest, so each is emitted exactly once
  per such transition; a tick of the same class as the tick before emits nothing. A tick
  whose distances cannot be computed has no class and changes nothing.
\<close>

theorem detect_events_per_transition:
  "state (makeGazeDetector n) = Rest \<and>
   (let cs = List.map_filter classification ts;
        my = ticks ts (makeGazeDetector n)
    in emitted my = concat (map transition_events (steps_from Rest cs)) \<and>
       count_list (emitted my) GestureBegin = count_list (steps_from Rest cs) (Rest, Gaze) \<and>
       count_list (emitted my) GestureEnd = count_list (steps_from Rest cs) (Gaze, Rest) \<and>
       (\<forall>t. classification t = Some (last (Rest # cs)) \<longrightarrow>
            emitted (ticks (ts @ [t]) (makeGazeDetector n)) = emitted my))"
proof -
  let ?d = "makeGazeDetector n"
  let ?cs = "List.map_filter classification ts"
  have e: "emitted (ticks ts ?d) = concat (map transition_events (steps_from Rest ?cs))"
    by (simp add: ticks_emitted made_state made_emitted)
  have same: "emitted (ticks (ts @ [t]) ?d) = emitted (ticks ts ?d)"
    if "classification t = Some (last (Rest # ?cs))" for t
  proof -
    obtain f r g where t: "t = (f, r, g)" by (cases t)
    have "state (ticks ts ?d) = last (Rest # ?cs)"
      by (simp add: ticks_state made_state)
    then show ?thesis
      using that by (cases "last (Rest # ?cs)") (simp_all add: ticks_append t detect_classified)
  qed
  show ?thesis
    unfolding Let_def using same by (simp add: made_state e count_begin count_end)
qed

text \<open>Three ticks, gaze, rest, rest: one begin, one end, and nothing for the repeated class.\<close>

theorem detect_events_per_transition_witness:
  "classification (pixel [0, 0, 0, 255], pixel [0, 0, 0, 255], pixel [9, 9, 9, 255]) =
     Some (last (Rest # List.map_filter classification
        [(pixel [9, 9, 9, 255], pixel [0, 0, 0, 255], pixel [9, 9, 9, 255]),
         (pixel [1, 1, 1, 255], pixel [0, 0, 0, 255], pixel [9, 9, 9, 255])])) \<and>
   emitted (ticks ([(pixel [9, 9, 9, 255], pixel [0, 0, 0, 255], pixel [9, 9, 9, 255]),
                    (pixel [1, 1, 1, 255], pixel [0, 0, 0, 255], pixel [9, 9, 9, 255])] @
                   [(pixel [0, 0, 0, 255], pixel [0, 0, 0, 255], pixel [9, 9, 9, 255])])
             (makeGazeDetector 1)) = [GestureBegin, GestureEnd]"
  using detect_events_per_transition [of 1
      "[(pixel [9, 9, 9, 255], pixel [0, 0, 0, 255], pixel [9, 9, 9, 255]),
        (pixel [1, 1, 1, 255], pixel [0, 0, 0, 255], pixel [9, 9, 9, 255])]"]
  unfolding Let_def
  by (simp add: classification_pixel map_filter_simps steps_from_def)

text \<open>
  Claim C6. When the widths or the heights of two images differ, \<open>l1Distance\<close> throws
  the dimension error; \<open>detect\<close> then throws too, whether the mismatch is with the
  resting or with the gazing template, so the tick yields no class, emits nothing and
  leaves the detector as it was.
\<close>

theorem mismatch_is_fatal:
  assumes "width img1 \<noteq> width img2 \<or> height img1 \<noteq> height img2"
  shows "l1Distance img1 img2 = Inl DimensionError \<and>
         detect img1 img2 g my = Inl DimensionError \<and>
         detect img1 r img2 my = Inl DimensionError \<and>
         classification (img1, img2, g) = None \<and>
         classification (img1, r, img2) = None \<and>
         ticks [(img1, img2, g)] my = my \<and> ticks [(img1, r, img2)] my = my"
proof -
  have d: "l1Distance img1 img2 = Inl DimensionError"
    using assms by (rule l1Distance_mismatch)
  have r: "l1Distance img1 r = Inl e \<Longrightarrow> e = DimensionError" for e
    by (rule l1Distance_error)
  have d1: "detect img1 img2 g my = Inl DimensionError"
    by (simp add: detect_def d)
  have d2: "detect img1 r img2 my = Inl DimensionError"
    using r by (auto simp: detect_def d split: sum.splits)
  have c2: "classification (img1, r, img2) = None"
    by (auto simp: classification_def d split: sum.splits)
  have c1: "classification (img1, img2, g) = None"
    by (simp add: classification_def d)
  have t1: "ticks [(img1, img2, g)] my = my" "ticks [(img1, r, img2)] my = my"
    by (simp_all add: d1 d2)
  show ?thesis
    using d d1 d2 c1 c2 t1 by blast
qed

text \<open>A frame of one pixel against a template of two.\<close>

theorem mismatch_is_fatal_witness:
  "l1Distance (pixel [1, 2, 3, 255]) \<lparr>width = 2, height = 1, data = [1, 2, 3, 255, 1, 2, 3, 255]\<rparr>
     = Inl DimensionError \<and>
   detect (pixel [1, 2, 3, 255]) (pixel [1, 2, 3, 255])
     \<lparr>width = 2, height = 1, data = [1, 2, 3, 255, 1, 2, 3, 255]\<rparr> (makeGazeDetector 1)
     = Inl DimensionError"
  using mismatch_is_fatal [of "pixel [1, 2, 3, 255]"
      "\<lparr>width = 2, height = 1, data = [1, 2, 3, 255, 1, 2, 3, 255]\<rparr>"
      "pixel [1, 2, 3, 255]" "makeGazeDetector 1" "pixel [1, 2, 3, 255]"]
  by simp

text \<open>
  Claim C7. For a frame and two templates of the frame's dimensions, the distance to each
  template is the sum over all pixels of the absolute differences of the three colour
  channels, alpha left out, and the tick classifies the frame as gazing exactly when the
  gazing template is strictly closer: equal distances give resting.
\<close>

theorem classification_by_l1_distance:
  assumes "wf_image f" "wf_image r" "wf_image g"
    and "width f = width r" "height f = height r" "width f = width g" "height f = height g"
  shows "l1Distance f r = Inr (Num (spec_distance f r)) \<and>
         l1Distance f g = Inr (Num (spec_distance f g)) \<and>
         classification (f, r, g) =
           Some (if spec_distance f g < spec_distance f r then Gaze else Rest) \<and>
         (\<exists>my'. detect f r g my = Inr my' \<and>
            state my' = (if spec_distance f g < spec_distance f r then Gaze else Rest))"
proof -
  have dr: "l1Distance f r = Inr (Num (spec_distance f r))"
    using assms by (intro l1Distance_spec) simp_all
  have dg: "l1Distance f g = Inr (Num (spec_distance f g))"
    using assms by (intro l1Distance_spec) simp_all
  have c: "classification (f, r, g) =
           Some (if spec_distance f g < spec_distance f r then Gaze else Rest)"
    by (simp add: classification_def dr dg)
  show ?thesis
    using detect_classified[OF c, of my] by (simp add: dr dg c)
qed

text \<open>A tie (2 against 2) is resting; a strictly closer gazing template (1 against 2) is gazing.\<close>

theorem classification_by_l1_distance_witness:
  "l1Distance (pixel [10, 20, 30, 255]) (pixel [12, 20, 30, 0]) = Inr (Num 2) \<and>
   l1Distance (pixel [10, 20, 30, 255]) (pixel [10, 21, 31, 255]) = Inr (Num 2) \<and>
   classification (pixel [10, 20, 30, 255], pixel [12, 20, 30, 0], pixel [10, 21, 31, 255])
     = Some Rest \<and>
   classification (pixel [10, 20, 30, 255], pixel [12, 20, 30, 0], pixel [10, 21, 30, 255])
     = Some Gaze"
  using classification_by_l1_distance [of "pixel [10, 20, 30, 255]" "pixel [12, 20, 30, 0]"
      "pixel [10, 21, 31, 255]" "makeGazeDetector 1"]
    classification_by_l1_distance [of "pixel [10, 20, 30, 255]" "pixel [12, 20, 30, 0]"
      "pixel [10, 21, 30, 255]" "makeGazeDetector 1"]
  by (simp add: wf_image_def spec_distance_pixel)

text \<open>
  Claim C9. When the two templates hold the same pixels and every frame has their
  dimensions, each tick computes the same distance to both, classifies as resting, and the
  detector, from its initial state, never emits an event.
\<close>

theorem identical_templates_never_emit:
  assumes "data r = data g" "width r = width g" "height r = height g"
    and "\<forall>f \<in> set fs. width f = width r \<and> height f = height r"
  shows "(\<forall>f \<in> set fs. \<exists>d. l1Distance f r = Inr d \<and> l1Distance f g = Inr d \<and>
            classification (f, r, g) = Some Rest) \<and>
         emitted (ticks (map (\<lambda>f. (f, r, g)) fs) (makeGazeDetector n)) = [] \<and>
         state (ticks (map (\<lambda>f. (f, r, g)) fs) (makeGazeDetector n)) = Rest"
proof -
  have cl: "\<exists>d. l1Distance f r = Inr d \<and> l1Distance f g = Inr d \<and>
            classification (f, r, g) = Some Rest" if "f \<in> set fs" for f
  proof -
    have m: "width f = width r" "height f = height r" "width f = width g" "height f = height g"
      using that assms by auto
    have "l1Distance f g = l1Distance f r"
      using l1Distance_match[OF m(1) m(2)] l1Distance_match[OF m(3) m(4)] assms(1) by simp
    moreover obtain d where "l1Distance f r = Inr d"
      using l1Distance_match[OF m(1) m(2)] by blast
    ultimately show ?thesis
      by (simp add: classification_def num_lt_irrefl)
  qed
  have cs: "List.map_filter classification (map (\<lambda>f. (f, r, g)) fs) = replicate (length fs) Rest"
    using cl by (intro all_rest_classes) blast
  have st: "concat (map transition_events (steps_from Rest (replicate k Rest))) = []" for k
    by (induction k) (simp_all add: steps_from_def)
  show ?thesis
    using cl by (simp add: ticks_emitted ticks_state made_state made_emitted cs st)
qed

text \<open>Two frames against twice the same template.\<close>

theorem identical_templates_never_emit_witness:
  "emitted (ticks [(pixel [9, 9, 9, 255], pixel [1, 2, 3, 255], pixel [1, 2, 3, 255]),
                   (pixel [1, 2, 4, 255], pixel [1, 2, 3, 255], pixel [1, 2, 3, 255])]
             (makeGazeDetector 1)) = []"
  using identical_templates_never_emit [of "pixel [1, 2, 3, 255]" "pixel [1, 2, 3, 255]"
      "[pixel [9, 9, 9, 255], pixel [1, 2, 4, 255]]" 1]
  by simp

subsection \<open>Modes and poll timers\<close>

lemma setStatus_fields [simp]:
  "intervals (setStatus s my) = intervals my" "interval (setStatus s my) = interval my"
  "nextId (setStatus s my) = nextId my"
  by (simp_all add: setStatus_def Let_def)

lemma one_timer_cleared:
  "one_timer my \<Longrightarrow> intervals (clearInterval (interval my) (setStatus s my)) = []"
  by (auto simp: one_timer_def clearInterval_def split: option.splits)

lemma one_timer_made: "one_timer (makeGazeDetector n)"
  by (simp add: one_timer_def makeGazeDetector_def)

lemma idleMode_intervals: "one_timer my \<Longrightarrow> intervals (idleMode my) = []"
  by (simp add: idleMode_def Let_def one_timer_cleared)

lemma listenMode_intervals:
  "one_timer my \<Longrightarrow> \<exists>h. intervals (listenMode my) = [(h, Detect, 200)] \<and> interval (listenMode my) = Some h"
  using one_timer_cleared[of my "''listening''"]
  by (simp add: listenMode_def Let_def setInterval_def REFRESH_RATE_LISTEN_def)

lemma scanMode_intervals:
  "one_timer my \<Longrightarrow> \<exists>h. intervals (scanMode my) = [(h, Detect, 50)] \<and> interval (scanMode my) = Some h"
  using one_timer_cleared[of my "''scanning''"]
  by (simp add: scanMode_def Let_def setInterval_def REFRESH_RATE_SCAN_def)

lemma one_timer_switch: "one_timer my \<Longrightarrow> one_timer (switch m my)"
  using idleMode_intervals[of my] listenMode_intervals[of my] scanMode_intervals[of my]
  by (cases m) (auto simp: one_timer_def)

lemma one_timer_switches: "one_timer my \<Longrightarrow> one_timer (switches ms my)"
  by (induction ms arbitrary: my) (simp_all add: one_timer_switch)

lemma switches_snoc: "switches (ms @ [m]) my = switch m (switches ms my)"
  by (induction ms arbitrary: my) simp_all

text \<open>
  Claim C5. After any sequence of mode switches at most one poll timer is live. The cancel
  step of a switch, which comes before \<open>setInterval\<close>, leaves none; a sequence that ends
  in \<open>idleMode\<close> leaves none, one that ends in \<open>listenMode\<close> or \<open>scanMode\<close> exactly one.
\<close>

theorem at_most_one_poll_timer:
  "(let my = switches ms (makeGazeDetector n)
    in length (intervals my) \<le> 1 \<and>
       intervals (clearInterval (interval (setStatus s my)) (setStatus s my)) = [] \<and>
       (ms \<noteq> [] \<and> last ms = IdleMode \<longrightarrow> intervals my = []) \<and>
       (ms \<noteq> [] \<and> last ms \<noteq> IdleMode \<longrightarrow> length (intervals my) = 1))"
proof -
  have inv: "one_timer (switches ks (makeGazeDetector n))" for ks
    by (rule one_timer_switches[OF one_timer_made])
  have le: "length (intervals (switches ms (makeGazeDetector n))) \<le> 1"
    using inv[of ms] by (auto simp: one_timer_def)
  have lastm: "intervals (switches ms (makeGazeDetector n)) = []"
    if "ms \<noteq> []" "last ms = IdleMode"
  proof -
    from that obtain ks where "ms = ks @ [IdleMode]"
      by (metis append_butlast_last_id)
    then show ?thesis
      using idleMode_intervals[OF inv[of ks]] by (simp add: switches_snoc)
  qed
  have lastn: "length (intervals (switches ms (makeGazeDetector n))) = 1"
    if "ms \<noteq> []" "last ms \<noteq> IdleMode"
  proof -
    from that obtain ks m where ms: "ms = ks @ [m]" and m: "m \<noteq> IdleMode"
      by (metis append_butlast_last_id)
    show ?thesis
      using listenMode_intervals[OF inv[of ks]] scanMode_intervals[OF inv[of ks]] m
      by (cases m) (auto simp: ms switches_snoc)
  qed
  show ?thesis
    unfolding Let_def using le lastm lastn one_timer_cleared[OF inv[of ms]] by simp
qed

text \<open>The sequence idle, listen, scan, idle, and the same without its last switch.\<close>

theorem at_most_one_poll_timer_witness:
  "intervals (switches [IdleMode, ListenMode, ScanMode, IdleMode] (makeGazeDetector 1)) = [] \<and>
   length (intervals (switches [IdleMode, ListenMode, ScanMode] (makeGazeDetector 1))) = 1"
  using at_most_one_poll_timer [of "[IdleMode, ListenMode, ScanMode, IdleMode]" 1]
    at_most_one_poll_timer [of "[IdleMode, ListenMode, ScanMode]" 1]
  unfolding Let_def by simp

section \<open>Properties of the guess menus\<close>

lemma split_on_nonempty: "split_on d s \<noteq> []"
  by (induction s) (auto split: list.splits)

lemma final_token_Cons:
  "final_token (c # cs) = (if c = CHR '' '' then final_token cs
                           else if CHR '' '' \<in> set cs then final_token cs else c # cs)"
proof -
  have in_set: "CHR '' '' \<in> set s \<Longrightarrow> tl (split_on CHR '' '' s) \<noteq> []" for s
    using split_on_nonempty[of "CHR '' ''"] by (induction s) (auto split: list.splits)
  have not_in: "CHR '' '' \<notin> set s \<Longrightarrow> split_on CHR '' '' s = [s]" for s
    by (induction s) auto
  show ?thesis
  proof (cases "split_on CHR '' '' cs")
    case Nil
    then show ?thesis using split_on_nonempty by blast
  next
    case (Cons t ts)
    then show ?thesis
      using in_set[of cs] not_in[of cs] by (auto simp: final_token_def)
  qed
qed

lemma final_token_empty: "final_token s = [] \<longleftrightarrow> s = [] \<or> last s = CHR '' ''"
proof (induction s)
  case Nil
  show ?case by (simp add: final_token_def)
next
  case (Cons c cs)
  show ?case
  proof (cases "cs = []")
    case True
    then show ?thesis by (simp add: final_token_def)
  next
    case False
    then have "last cs = CHR '' '' \<Longrightarrow> CHR '' '' \<in> set cs"
      using last_in_set[of cs] by auto
    then show ?thesis using False Cons by (auto simp: final_token_Cons)
  qed
qed

text \<open>
  Claim C8. The two guess menus are not equivalent. On no buffer text and reply do they
  do the same. Where the last word of the text is not empty, both send a request, and the
  requests differ: the refactored one appends "*" to the word, asks without case
  sensitivity where the monolithic one asks with it, and asks for 8 results, not 7.
  Where the last word is empty neither sends one, and they offer 8 and 7 empty guesses.
\<close>

theorem guess_menus_differ:
  "guessWord inputText r \<noteq> guessWord_modular inputText r \<and>
   (final_token inputText \<noteq> [] \<longrightarrow>
      (\<exists>q q'. fst (guessWord inputText r) = Some q \<and> fst (guessWord_modular inputText r) = Some q' \<and>
         q \<noteq> q' \<and>
         url q = ''http:api.wordnik.com:80/v4/words.json/search/'' @ final_token inputText \<and>
         url q' = url q @ ''*'' \<and>
         caseSensitive q \<and> \<not> caseSensitive q' \<and> limit q = 7 \<and> limit q' = 8)) \<and>
   (final_token inputText = [] \<longrightarrow>
      guessWord inputText r = (None, Some (replicate 7 [])) \<and>
      guessWord_modular inputText r = (None, Some (replicate 8 [])))"
proof -
  have r: "replicate 7 ([]::string) \<noteq> replicate 8 []"
    by (metis length_replicate numeral_eq_iff semiring_norm(88) semiring_norm(89))
  show ?thesis
    using r
    by (auto simp: guessWord_def guessWord_modular_def Let_def wordnik_def wordnik_modular_def
        util_repeat_def N_GUESSES_def N_GUESSES_modular_def)
qed

text \<open>The buffer "hello wor", and the buffer "hello ", whose last word is empty.\<close>

theorem guess_menus_differ_witness:
  "final_token ''hello wor'' = ''wor'' \<and>
   map_option url (fst (guessWord ''hello wor'' Failure)) =
     Some ''http:api.wordnik.com:80/v4/words.json/search/wor'' \<and>
   map_option url (fst (guessWord_modular ''hello wor'' Failure)) =
     Some ''http:api.wordnik.com:80/v4/words.json/search/wor*'' \<and>
   final_token ''hello '' = [] \<and>
   guessWord ''hello '' Failure = (None, Some [[], [], [], [], [], [], []]) \<and>
   guessWord_modular ''hello '' Failure = (None, Some [[], [], [], [], [], [], [], []])"
proof -
  have t: "final_token ''hello wor'' = ''wor''" "final_token ''hello '' = []"
    by (simp_all add: final_token_def)
  have n: "final_token ''hello wor'' \<noteq> []"
    by (simp add: t)
  have e: "replicate 7 ([]::string) = [[], [], [], [], [], [], []]"
       "replicate 8 ([]::string) = [[], [], [], [], [], [], [], []]"
    by (simp_all add: numeral_eq_Suc)
  show ?thesis
    using guess_menus_differ [of "''hello wor''" Failure]
      guess_menus_differ [of "''hello ''" Failure] t n e
    by auto
qed

text \<open>
  Claim C10 says that for a non-empty last token the callback always receives a list of
  exactly 7 entries. When the request fails it receives nothing: \<open>failure\<close> does not call
  it. And a reply of ten results, with \<open>util.pad\<close> as modelled, gives nine entries.
\<close>

theorem guessWord_always_seven_counterexample:
  "final_token ''hel'' \<noteq> [] \<and>
   guessWord ''hel'' Failure = (Some (wordnik ''hel''), None) \<and>
   snd (guessWord ''hel'' (Success (replicate 10 \<lparr>word = ''help'', count = 1\<rparr>))) =
     Some (replicate 9 ''help'') \<and>
   length (replicate 9 ''help'') \<noteq> 7"
  by (simp add: guessWord_def final_token_def Let_def util_pad_def N_GUESSES_def numeral_eq_Suc)

text \<open>
  Claim C10, amended. When the last space-separated piece of the buffer text is empty,
  that is, the text is empty or ends in a space, the monolithic \<open>guessWord\<close> sends no
  request and calls back with exactly 7 empty strings. Otherwise it sends the request for
  that piece. When the request fails the callback is not called. When it succeeds the
  callback receives the words of the results without the first, padded by \<open>util.pad\<close> to
  7; for a reply of at most 8 results (the request asks for at most 7) these are exactly
  7 entries, the words first, then empty strings.
\<close>

theorem guessWord_seven_guesses:
  "(final_token inputText = [] \<longleftrightarrow> inputText = [] \<or> last inputText = CHR '' '') \<and>
   (final_token inputText = [] \<longrightarrow>
      guessWord inputText r = (None, Some (replicate 7 []))) \<and>
   (final_token inputText \<noteq> [] \<longrightarrow>
      fst (guessWord inputText r) = Some (wordnik (final_token inputText)) \<and>
      snd (guessWord inputText Failure) = None \<and>
      snd (guessWord inputText (Success rs)) =
        Some (util_pad (map word (drop 1 rs)) [] N_GUESSES) \<and>
      (length rs \<le> N_GUESSES + 1 \<longrightarrow>
         length (util_pad (map word (drop 1 rs)) ([]::string) N_GUESSES) = 7 \<and>
         util_pad (map word (drop 1 rs)) [] N_GUESSES =
           map word (drop 1 rs) @ replicate (7 - length (drop 1 rs)) []))"
proof -
  have "length (util_pad (map word (drop 1 rs)) ([]::string) N_GUESSES) = 7"
    if "length rs \<le> N_GUESSES + 1"
    using that by (simp add: util_pad_def N_GUESSES_def)
  then show ?thesis
    by (auto simp: final_token_empty guessWord_def Let_def util_repeat_def util_pad_def
        N_GUESSES_def)
qed

text \<open>
  The buffer "hello " gets 7 empty guesses and no request; "hel" with three results gets
  two words and five empty strings, and nothing when the request fails.
\<close>

theorem guessWord_seven_guesses_witness:
  "guessWord ''hello '' Failure = (None, Some [[], [], [], [], [], [], []]) \<and>
   fst (guessWord ''hel'' Failure) = Some (wordnik ''hel'') \<and>
   snd (guessWord ''hel'' Failure) = None \<and>
   snd (guessWord ''hel''
     (Success [\<lparr>word = ''hel'', count = 9\<rparr>, \<lparr>word = ''hello'', count = 5\<rparr>,
               \<lparr>word = ''help'', count = 3\<rparr>])) =
     Some [''hello'', ''help'', [], [], [], [], []]"
proof -
  have t: "final_token ''hello '' = []" "final_token ''hel'' \<noteq> []" "final_token ''hel'' = ''hel''"
    by (simp_all add: final_token_def)
  have e: "replicate 7 ([]::string) = [[], [], [], [], [], [], []]"
      "replicate 5 ([]::string) = [[], [], [], [], []]"
    by (simp_all add: numeral_eq_Suc)
  show ?thesis
    using guessWord_seven_guesses [of "''hello ''" Failure "[]"]
      guessWord_seven_guesses [of "''hel''" Failure
        "[\<lparr>word = ''hel'', count = 9\<rparr>, \<lparr>word = ''hello'', count = 5\<rparr>,
          \<lparr>word = ''help'', count = 3\<rparr>]"] t e
    by (auto simp: N_GUESSES_def)
qed

section \<open>Properties of the menus\<close>

subsection \<open>Fields after each primitive\<close>

lemma observe_fields [simp]:
  "gazeListeners (observe os w) = gazeListeners w"
  "extendedGazeListeners (observe os w) = extendedGazeListeners w"
  "pending (observe os w) = pending w"
  "nextHandle (observe os w) = nextHandle w"
  "nextArm (observe os w) = nextArm w"
  "trace (observe os w) = trace w @ os"
  by (simp_all add: observe_def)

lemma uncaught_fields [simp]:
  "gazeListeners (uncaught e w) = gazeListeners w"
  "extendedGazeListeners (uncaught e w) = extendedGazeListeners w"
  "pending (uncaught e w) = pending w"
  "nextHandle (uncaught e w) = nextHandle w"
  "nextArm (uncaught e w) = nextArm w"
  "trace (uncaught e w) = trace w @ [Uncaught e]"
  by (simp_all add: uncaught_def)

lemma setTimeout_fields [simp]:
  "gazeListeners (setTimeout c w) = gazeListeners w"
  "extendedGazeListeners (setTimeout c w) = extendedGazeListeners w"
  "pending (setTimeout c w) = pending w @ [(nextHandle w, c)]"
  "nextHandle (setTimeout c w) = nextHandle w + 1"
  "nextArm (setTimeout c w) = nextArm w"
  "trace (setTimeout c w) = trace w"
  by (simp_all add: setTimeout_def)

lemma clearTimeout_fields [simp]:
  "gazeListeners (clearTimeout h w) = gazeListeners w"
  "extendedGazeListeners (clearTimeout h w) = extendedGazeListeners w"
  "pending (clearTimeout h w) = filter (\<lambda>t. fst t \<noteq> h) (pending w)"
  "nextHandle (clearTimeout h w) = nextHandle w"
  "nextArm (clearTimeout h w) = nextArm w"
  "trace (clearTimeout h w) = trace w"
  by (simp_all add: clearTimeout_def)

lemma addGazeListener_fields [simp]:
  "gazeListeners (addGazeListener l w) = gazeListeners w @ [l]"
  "extendedGazeListeners (addGazeListener l w) = extendedGazeListeners w"
  "pending (addGazeListener l w) = pending w"
  "nextHandle (addGazeListener l w) = nextHandle w"
  "nextArm (addGazeListener l w) = nextArm w"
  "trace (addGazeListener l w) = trace w"
  by (simp_all add: addGazeListener_def)

lemma removeGazeListener_fields [simp]:
  "gazeListeners (removeGazeListener a w) = filter (\<lambda>l. fst l \<noteq> a) (gazeListeners w)"
  "extendedGazeListeners (removeGazeListener a w) = extendedGazeListeners w"
  "pending (removeGazeListener a w) = pending w"
  "nextHandle (removeGazeListener a w) = nextHandle w"
  "nextArm (removeGazeListener a w) = nextArm w"
  "trace (removeGazeListener a w) = trace w"
  by (simp_all add: removeGazeListener_def)

lemma addExtendedGazeListener_fields [simp]:
  "gazeListeners (addExtendedGazeListener s w) = gazeListeners w"
  "extendedGazeListeners (addExtendedGazeListener s w) = extendedGazeListeners w @ [s]"
  "pending (addExtendedGazeListener s w) = pending w"
  "nextHandle (addExtendedGazeListener s w) = nextHandle w"
  "nextArm (addExtendedGazeListener s w) = nextArm w"
  "trace (addExtendedGazeListener s w) = trace w"
  by (simp_all add: addExtendedGazeListener_def)

lemma removeExtendedGazeListener_fields [simp]:
  "gazeListeners (removeExtendedGazeListener s w) = gazeListeners w"
  "extendedGazeListeners (removeExtendedGazeListener s w) = filter (\<lambda>l. l \<noteq> s) (extendedGazeListeners w)"
  "pending (removeExtendedGazeListener s w) = pending w"
  "nextHandle (removeExtendedGazeListener s w) = nextHandle w"
  "nextArm (removeExtendedGazeListener s w) = nextArm w"
  "trace (removeExtendedGazeListener s w) = trace w"
  by (simp_all add: removeExtendedGazeListener_def)

lemma button_scan_fields [simp]:
  "gazeListeners (button_scan m ix l w) =
     gazeListeners w @ [(\<lparr>armId = nextArm w, amenu = m, aix = ix, aloop = l\<rparr>, nextHandle w)]"
  "extendedGazeListeners (button_scan m ix l w) = extendedGazeListeners w"
  "pending (button_scan m ix l w) =
     pending w @ [(nextHandle w, OnTimeout \<lparr>armId = nextArm w, amenu = m, aix = ix, aloop = l\<rparr>)]"
  "nextHandle (button_scan m ix l w) = nextHandle w + 1"
  "nextArm (button_scan m ix l w) = nextArm w + 1"
  "trace (button_scan m ix l w) =
     trace w @ [Toggle m ix, Announce m ix, Armed \<lparr>armId = nextArm w, amenu = m, aix = ix, aloop = l\<rparr>]"
  by (simp_all add: button_scan_def Let_def)

subsection \<open>The invariant is kept by the primitives\<close>

lemma neutral_notin:
  assumes "\<forall>x \<in> set os. neutral x"
  shows "Armed a \<notin> set os" "Pressed a \<notin> set os" "TimedOut a \<notin> set os" "Action a \<notin> set os"
  using assms by fastforce+

lemma entry_ok_cong:
  "gazeListeners w' = gazeListeners w \<Longrightarrow>
   (\<And>a. Pressed a \<in> set (trace w') \<longleftrightarrow> Pressed a \<in> set (trace w)) \<Longrightarrow>
   entry_ok w' t = entry_ok w t"
  by (cases "(w, t)" rule: entry_ok.cases) simp_all

lemma race_inv_cong:
  assumes "gazeListeners w' = gazeListeners w" "pending w' = pending w"
    "nextHandle w' = nextHandle w" "nextArm w' = nextArm w"
    "\<And>a. Armed a \<in> set (trace w') \<longleftrightarrow> Armed a \<in> set (trace w)"
    "\<And>a. Pressed a \<in> set (trace w') \<longleftrightarrow> Pressed a \<in> set (trace w)"
    "\<And>a. TimedOut a \<in> set (trace w') \<longleftrightarrow> TimedOut a \<in> set (trace w)"
    "\<And>a. Action a \<in> set (trace w') \<longleftrightarrow> Action a \<in> set (trace w)"
  shows "race_inv cfg w' = race_inv cfg w"
proof -
  have e: "entry_ok w' = entry_ok w"
    by (rule ext, rule entry_ok_cong) (simp_all only: assms)
  show ?thesis
    unfolding race_inv_def listeners_ok_def handles_ok_def pending_ok_def trace_ok_def
    by (simp only: assms e)
qed

lemma inv_observe:
  "race_inv cfg w \<Longrightarrow> \<forall>x \<in> set os. neutral x \<Longrightarrow> race_inv cfg (observe os w)"
  by (subst race_inv_cong[of _ w]) (simp_all add: neutral_notin)

lemma inv_uncaught: "race_inv cfg w \<Longrightarrow> race_inv cfg (uncaught e w)"
  by (simp add: uncaught_def inv_observe)

lemma inv_addExt: "race_inv cfg w \<Longrightarrow> race_inv cfg (addExtendedGazeListener s w)"
  by (subst race_inv_cong[of _ w]) simp_all

lemma inv_removeExt: "race_inv cfg w \<Longrightarrow> race_inv cfg (removeExtendedGazeListener s w)"
  by (subst race_inv_cong[of _ w]) simp_all

lemma inv_setTimeout:
  assumes "race_inv cfg w" "\<forall>a. c \<noteq> OnTimeout a" "entry_ok w (nextHandle w, c)"
  shows "race_inv cfg (setTimeout c w)"
proof -
  have e: "entry_ok (setTimeout c w) t = entry_ok w t" for t
    by (rule entry_ok_cong) simp_all
  have l: "listeners_ok cfg (setTimeout c w)"
    using assms(1) by (simp add: race_inv_def listeners_ok_def)
  have h: "handles_ok (setTimeout c w)"
    using assms(1) by (fastforce simp: race_inv_def handles_ok_def)
  have p: "pending_ok (setTimeout c w)"
    using assms by (simp add: race_inv_def pending_ok_def e)
  have t: "trace_ok (setTimeout c w)"
    using assms(1) by (simp add: race_inv_def trace_ok_def)
  show ?thesis
    using assms(1) l h p t by (simp add: race_inv_def)
qed

lemma fresh_arm:
  assumes "race_inv cfg w" "armId a = nextArm w"
  shows "Armed a \<notin> set (trace w)" "Pressed a \<notin> set (trace w)" "TimedOut a \<notin> set (trace w)"
    "Action a \<notin> set (trace w)" "a \<notin> fst ` set (gazeListeners w)"
proof -
  show 1: "Armed a \<notin> set (trace w)"
    using assms by (auto simp: race_inv_def trace_ok_def)
  show 2: "Pressed a \<notin> set (trace w)" and "TimedOut a \<notin> set (trace w)"
    using assms 1 by (auto simp: race_inv_def trace_ok_def)
  show "Action a \<notin> set (trace w)"
    using assms 2 by (auto simp: race_inv_def trace_ok_def)
  show "a \<notin> fst ` set (gazeListeners w)"
    using assms by (auto simp: race_inv_def listeners_ok_def)
qed

lemma inv_button_scan:
  assumes "race_inv cfg w" "m < length cfg" "ix < length (buttons (cfg ! m))"
  shows "race_inv cfg (button_scan m ix l w)"
proof -
  let ?a = "\<lparr>armId = nextArm w, amenu = m, aix = ix, aloop = l\<rparr>"
  let ?w = "button_scan m ix l w"
  have f: "Armed ?a \<notin> set (trace w)" "Pressed ?a \<notin> set (trace w)" "TimedOut ?a \<notin> set (trace w)"
    "Action ?a \<notin> set (trace w)" "?a \<notin> fst ` set (gazeListeners w)"
    using fresh_arm[OF assms(1), of ?a] by simp_all
  have nh: "\<forall>t \<in> set (pending w). fst t < nextHandle w"
    using assms(1) by (simp add: race_inv_def handles_ok_def)
  have e: "entry_ok w t \<Longrightarrow> entry_ok ?w t" for t
    by (cases "(w, t)" rule: entry_ok.cases) simp_all
  have l: "listeners_ok cfg ?w"
    using assms f by (auto simp: race_inv_def listeners_ok_def valid_arm_def)
  have h: "handles_ok ?w"
    using assms(1) by (fastforce simp: race_inv_def handles_ok_def)
  have p: "pending_ok ?w"
    using assms(1) e by (simp add: race_inv_def pending_ok_def)
  have d: "distinct (map fst (gazeListeners ?w))"
    using assms(1) f(5) by (simp add: race_inv_def)
  have t: "trace_ok ?w"
    using assms(1) f by (auto simp: race_inv_def trace_ok_def)
  show ?thesis
    using l h p d t by (simp add: race_inv_def)
qed

lemma unique_handle:
  "handles_ok w \<Longrightarrow> (h, c) \<in> set (pending w) \<Longrightarrow> (h, c') \<in> set (pending w) \<Longrightarrow> c = c'"
  by (auto simp: handles_ok_def dest: eq_key_imp_eq_value)

lemma unique_listener:
  "distinct (map fst (gazeListeners w)) \<Longrightarrow> (a, h) \<in> set (gazeListeners w) \<Longrightarrow>
   (a, h') \<in> set (gazeListeners w) \<Longrightarrow> h = h'"
  by (auto dest: eq_key_imp_eq_value)

text \<open>The race is resolved for an arm: its listener and its deadline go together.\<close>
lemma inv_resolve:
  assumes inv: "race_inv cfg w" and l: "(a, h) \<in> set (gazeListeners w)"
    and m: "mark = Pressed a \<or> mark = TimedOut a" and n: "\<forall>x \<in> set os. neutral x"
  shows "race_inv cfg (clearTimeout h (removeGazeListener a (observe (mark # os) w)))"
proof -
  let ?w = "clearTimeout h (removeGazeListener a (observe (mark # os) w))"
  note nn = neutral_notin[OF n]
  have lo: "listeners_ok cfg w" and ho: "handles_ok w" and po: "pending_ok w"
    and dl: "distinct (map fst (gazeListeners w))" and tr: "trace_ok w"
    using inv by (simp_all add: race_inv_def)
  have pa: "(h, OnTimeout a) \<in> set (pending w)" and na: "Pressed a \<notin> set (trace w)"
    "TimedOut a \<notin> set (trace w)" and aa: "Armed a \<in> set (trace w)"
    using lo l by (auto simp: listeners_ok_def)
  have other: "snd k \<noteq> h" if "k \<in> set (gazeListeners w)" "fst k \<noteq> a" for k
  proof
    assume "snd k = h"
    moreover have "(snd k, OnTimeout (fst k)) \<in> set (pending w)"
      using lo that(1) by (simp add: listeners_ok_def)
    ultimately have "OnTimeout (fst k) = OnTimeout a"
      using unique_handle[OF ho _ pa] by simp
    then show False using that(2) by simp
  qed
  have l': "listeners_ok cfg ?w"
    unfolding listeners_ok_def
  proof
    fix k assume "k \<in> set (gazeListeners ?w)"
    then have k: "k \<in> set (gazeListeners w)" "fst k \<noteq> a" by simp_all
    then have "armId (fst k) < nextArm w" "valid_arm cfg (fst k)" "Armed (fst k) \<in> set (trace w)"
      "(snd k, OnTimeout (fst k)) \<in> set (pending w)" "Pressed (fst k) \<notin> set (trace w)"
      "TimedOut (fst k) \<notin> set (trace w)"
      using lo by (simp_all add: listeners_ok_def)
    then show "armId (fst k) < nextArm ?w \<and> valid_arm cfg (fst k) \<and> Armed (fst k) \<in> set (trace ?w) \<and>
       (snd k, OnTimeout (fst k)) \<in> set (pending ?w) \<and>
       Pressed (fst k) \<notin> set (trace ?w) \<and> TimedOut (fst k) \<notin> set (trace ?w)"
      using other[OF k] k(2) m nn by auto
  qed
  have h': "handles_ok ?w"
    using ho by (simp add: handles_ok_def distinct_map_filter)
  have p': "pending_ok ?w"
    unfolding pending_ok_def
  proof
    fix t assume "t \<in> set (pending ?w)"
    then have t: "t \<in> set (pending w)" "fst t \<noteq> h" by simp_all
    then have e: "entry_ok w t" using po by (simp add: pending_ok_def)
    obtain g c where gc: "t = (g, c)" by (cases t)
    show "entry_ok ?w t"
    proof (cases c)
      case (OnTimeout b)
      then have b: "(b, g) \<in> set (gazeListeners w)" using e gc by simp
      have "b \<noteq> a"
        using unique_listener[OF dl b] l t(2) gc by auto
      then show ?thesis using b gc OnTimeout by simp
    qed (use e gc in auto)
  qed
  have d': "distinct (map fst (gazeListeners ?w))"
    using dl by (simp add: distinct_map_filter)
  have still: "b \<in> fst ` set (gazeListeners ?w) \<or> Pressed b \<in> set (trace ?w) \<or>
      TimedOut b \<in> set (trace ?w)" if "Armed b \<in> set (trace ?w)" for b
  proof (cases "b = a")
    case True
    then show ?thesis using m by auto
  next
    case False
    from that m nn have "Armed b \<in> set (trace w)" by auto
    then have "b \<in> fst ` set (gazeListeners w) \<or> Pressed b \<in> set (trace w) \<or>
      TimedOut b \<in> set (trace w)"
      using tr by (simp add: trace_ok_def)
    then show ?thesis using False by force
  qed
  have t4: "(\<forall>b. Armed b \<in> set (trace ?w) \<longrightarrow> armId b < nextArm ?w) \<and>
      (\<forall>b. Pressed b \<in> set (trace ?w) \<or> TimedOut b \<in> set (trace ?w) \<longrightarrow> Armed b \<in> set (trace ?w)) \<and>
      (\<forall>b. Action b \<in> set (trace ?w) \<longrightarrow> Pressed b \<in> set (trace ?w)) \<and>
      (\<forall>b. Pressed b \<in> set (trace ?w) \<longrightarrow> TimedOut b \<notin> set (trace ?w))"
    using tr m na aa nn unfolding trace_ok_def by auto
  have t': "trace_ok ?w"
    unfolding trace_ok_def using t4 still by blast
  show ?thesis
    using l' h' p' d' t' by (simp add: race_inv_def)
qed

lemma swap_clear_remove:
  "clearTimeout h (removeGazeListener a w) = removeGazeListener a (clearTimeout h w)"
  by (simp add: clearTimeout_def removeGazeListener_def)

lemma swap_clear_observe: "clearTimeout h (observe os w) = observe os (clearTimeout h w)"
  by (simp add: clearTimeout_def observe_def)

lemma inv_clear_other:
  assumes inv: "race_inv cfg w" and p: "(h, c) \<in> set (pending w)" and c: "\<forall>a. c \<noteq> OnTimeout a"
  shows "race_inv cfg (clearTimeout h w)"
proof -
  let ?w = "clearTimeout h w"
  have lo: "listeners_ok cfg w" and ho: "handles_ok w" and po: "pending_ok w"
    and dl: "distinct (map fst (gazeListeners w))" and tr: "trace_ok w"
    using inv by (simp_all add: race_inv_def)
  have e: "entry_ok ?w = entry_ok w"
    by (rule ext, rule entry_ok_cong) simp_all
  have keep: "snd k \<noteq> h" if "k \<in> set (gazeListeners w)" for k
  proof
    assume "snd k = h"
    moreover have "(snd k, OnTimeout (fst k)) \<in> set (pending w)"
      using lo that by (simp add: listeners_ok_def)
    ultimately show False
      using unique_handle[OF ho p] c by auto
  qed
  have l': "listeners_ok cfg ?w"
    using lo keep by (simp add: listeners_ok_def)
  have h': "handles_ok ?w"
    using ho by (simp add: handles_ok_def distinct_map_filter)
  have p': "pending_ok ?w"
    using po by (simp add: pending_ok_def e)
  have t': "trace_ok ?w"
    using tr by (simp add: trace_ok_def)
  show ?thesis
    using l' h' p' dl t' by (simp add: race_inv_def)
qed

lemma inv_action_mark:
  assumes inv: "race_inv cfg w" and p: "Pressed a \<in> set (trace w)"
  shows "race_inv cfg (observe [Toggle m i, Action a] w)"
proof -
  let ?w = "observe [Toggle m i, Action a] w"
  have e: "entry_ok ?w = entry_ok w"
    by (rule ext, rule entry_ok_cong) simp_all
  have "listeners_ok cfg ?w" "handles_ok ?w" "pending_ok ?w" "trace_ok ?w"
    using inv p by (simp_all add: race_inv_def listeners_ok_def handles_ok_def pending_ok_def
        trace_ok_def e)
  then show ?thesis
    using inv by (simp add: race_inv_def)
qed

subsection \<open>The invariant is kept by every event\<close>

lemma menu_atD: "menu_at cfg m = Some my \<Longrightarrow> m < length cfg \<and> my = cfg ! m"
  by (auto simp: menu_at_def split: if_splits)

lemma button_atD: "button_at my ix = Some b \<Longrightarrow> ix < length (buttons my) \<and> b = buttons my ! ix"
  by (auto simp: button_at_def split: if_splits)

lemma inv_slideUp: "race_inv cfg w \<Longrightarrow> race_inv cfg (slideUp cfg m w)"
  by (simp add: slideUp_def inv_observe split: option.splits)

lemma inv_slideDown: "race_inv cfg w \<Longrightarrow> race_inv cfg (slideDown cfg m w)"
  by (simp add: slideDown_def inv_observe split: option.splits)

lemma inv_scanAt: "race_inv cfg w \<Longrightarrow> race_inv cfg (scanAt cfg m ix l w)"
  by (auto simp: scanAt_def inv_uncaught inv_button_scan split: option.splits
           dest!: menu_atD button_atD)

lemma inv_menu_scan: "race_inv cfg w \<Longrightarrow> race_inv cfg (menu_scan cfg m w)"
  by (simp add: menu_scan_def inv_uncaught inv_scanAt inv_slideDown inv_observe split: option.splits)

lemma inv_cbpressed: "race_inv cfg w \<Longrightarrow> race_inv cfg (cbpressed cfg a w)"
  by (simp add: cbpressed_def Let_def inv_uncaught inv_menu_scan inv_slideUp
           split: option.splits menuKind.splits)

lemma inv_cbpassed: "race_inv cfg w \<Longrightarrow> race_inv cfg (cbpassed cfg a w)"
  by (simp add: cbpassed_def inv_uncaught inv_scanAt inv_cbpressed
           split: option.splits menuKind.splits)

lemma inv_action: "race_inv cfg w \<Longrightarrow> race_inv cfg (action cfg a w)"
  unfolding action_def Let_def
  by (auto simp: inv_uncaught inv_menu_scan inv_slideUp inv_observe inv_setTimeout
        inv_addExt inv_cbpressed
      split: option.splits buttonType.splits sum.splits)

lemma inv_onPress:
  assumes "race_inv cfg w" "(a, h) \<in> set (gazeListeners w)"
  shows "race_inv cfg (onPress (a, h) w)"
proof -
  have "race_inv cfg (clearTimeout h (removeGazeListener a (observe [Pressed a] w)))"
    using assms by (intro inv_resolve) simp_all
  then show ?thesis
    by (simp add: onPress_def inv_setTimeout)
qed

lemma inv_onTimeout:
  assumes "race_inv cfg w" "(h, OnTimeout a) \<in> set (pending w)"
  shows "race_inv cfg (onTimeout cfg a (clearTimeout h w))"
proof -
  have l: "(a, h) \<in> set (gazeListeners w)"
    using assms by (auto simp: race_inv_def pending_ok_def)
  have "race_inv cfg (clearTimeout h (removeGazeListener a
           (observe [TimedOut a, Toggle (amenu a) (aix a)] w)))"
    using assms(1) l by (intro inv_resolve) simp_all
  then show ?thesis
    by (simp add: onTimeout_def inv_cbpassed swap_clear_remove swap_clear_observe)
qed

lemma inv_gesture:
  "race_inv cfg w \<Longrightarrow> set ls \<subseteq> set (gazeListeners w) \<Longrightarrow> distinct (map fst ls) \<Longrightarrow>
   race_inv cfg (foldl (\<lambda>w l. onPress l w) w ls)"
proof (induction ls arbitrary: w)
  case Nil
  then show ?case by simp
next
  case (Cons l ls)
  obtain a h where l: "l = (a, h)" by (cases l)
  have 1: "race_inv cfg (onPress l w)"
    using Cons.prems by (simp add: l inv_onPress)
  have 2: "set ls \<subseteq> set (gazeListeners (onPress l w))"
    using Cons.prems by (auto simp: l onPress_def)
  show ?case
    using Cons.IH[OF 1 2] Cons.prems(3) by simp
qed

lemma inv_start: "race_inv cfg w \<Longrightarrow> race_inv cfg (start cfg s w)"
  by (cases s) (simp add: start_def inv_observe inv_menu_scan inv_removeExt)

lemma inv_extended:
  "race_inv cfg w \<Longrightarrow> race_inv cfg (foldl (\<lambda>w s. start cfg s w) w ss)"
  by (induction ss arbitrary: w) (simp_all add: inv_start)

lemma inv_run_callback:
  assumes inv: "race_inv cfg w" and p: "(h, c) \<in> set (pending w)"
  shows "race_inv cfg (run_callback cfg c (clearTimeout h w))"
proof (cases "\<exists>a. c = OnTimeout a")
  case True
  then show ?thesis using inv p by (auto simp: inv_onTimeout)
next
  case False
  then have cl: "race_inv cfg (clearTimeout h w)"
    using inv p by (intro inv_clear_other[of cfg w h c]) simp_all
  have e: "entry_ok w (h, c)"
    using inv p by (auto simp: race_inv_def pending_ok_def)
  show ?thesis
  proof (cases c)
    case (OnTimeout a)
    then show ?thesis using False by simp
  next
    case (AfterPress a)
    then show ?thesis
      using cl e by (simp add: afterPress_def inv_setTimeout inv_observe)
  next
    case (AfterAnnouncement a)
    then show ?thesis
      using cl e by (simp add: afterAnnouncement_def inv_action inv_action_mark)
  qed (use cl in \<open>simp_all add: inv_setTimeout inv_observe inv_cbpressed\<close>)
qed

lemma inv_step: "race_inv cfg w \<Longrightarrow> race_inv cfg (step cfg e w)"
proof (cases e)
  case Gesture
  assume "race_inv cfg w"
  then show ?thesis
    using Gesture by (simp add: inv_gesture race_inv_def[of cfg w] inv_gesture)
next
  case ExtendedGesture
  assume "race_inv cfg w"
  then show ?thesis using ExtendedGesture by (simp add: inv_extended)
next
  case (Fire h)
  assume "race_inv cfg w"
  then show ?thesis
    using Fire by (auto simp: inv_run_callback split: option.splits dest!: map_of_SomeD)
qed

lemma inv_run: "race_inv cfg w \<Longrightarrow> race_inv cfg (run cfg es w)"
  by (induction es arbitrary: w) (simp_all add: inv_step)

lemma inv_initial: "race_inv cfg (initial_world cfg)"
  by (simp add: race_inv_def initial_world_def listeners_ok_def handles_ok_def pending_ok_def
        trace_ok_def)

subsection \<open>The trace only grows\<close>

lemma keep_slideUp: "x \<in> set (trace w) \<Longrightarrow> x \<in> set (trace (slideUp cfg m w))"
  by (simp add: slideUp_def split: option.splits)

lemma keep_slideDown: "x \<in> set (trace w) \<Longrightarrow> x \<in> set (trace (slideDown cfg m w))"
  by (simp add: slideDown_def split: option.splits)

lemma keep_scanAt: "x \<in> set (trace w) \<Longrightarrow> x \<in> set (trace (scanAt cfg m ix l w))"
  by (simp add: scanAt_def split: option.splits)

lemma keep_menu_scan: "x \<in> set (trace w) \<Longrightarrow> x \<in> set (trace (menu_scan cfg m w))"
  by (simp add: menu_scan_def keep_scanAt keep_slideDown split: option.splits)

lemma keep_cbpressed: "x \<in> set (trace w) \<Longrightarrow> x \<in> set (trace (cbpressed cfg a w))"
  by (simp add: cbpressed_def Let_def keep_menu_scan keep_slideUp
        split: option.splits menuKind.splits)

lemma keep_cbpassed: "x \<in> set (trace w) \<Longrightarrow> x \<in> set (trace (cbpassed cfg a w))"
  by (simp add: cbpassed_def keep_scanAt keep_cbpressed split: option.splits menuKind.splits)

lemma keep_action: "x \<in> set (trace w) \<Longrightarrow> x \<in> set (trace (action cfg a w))"
  unfolding action_def Let_def
  by (auto simp: keep_menu_scan keep_slideUp keep_cbpressed
      split: option.splits buttonType.splits sum.splits)

lemma keep_onPress: "x \<in> set (trace w) \<Longrightarrow> x \<in> set (trace (onPress l w))"
  by (cases l) (simp add: onPress_def)

lemma keep_start: "x \<in> set (trace w) \<Longrightarrow> x \<in> set (trace (start cfg s w))"
  by (cases s) (simp add: start_def keep_menu_scan)

lemma keep_run_callback:
  "x \<in> set (trace w) \<Longrightarrow> x \<in> set (trace (run_callback cfg c w))"
  by (cases c)
     (simp_all add: onTimeout_def afterPress_def afterAnnouncement_def keep_cbpassed keep_action
        keep_cbpressed)

lemma keep_gesture:
  "x \<in> set (trace w) \<Longrightarrow> x \<in> set (trace (foldl (\<lambda>w l. onPress l w) w ls))"
  by (induction ls arbitrary: w) (simp_all add: keep_onPress)

lemma keep_extended:
  "x \<in> set (trace w) \<Longrightarrow> x \<in> set (trace (foldl (\<lambda>w s. start cfg s w) w ss))"
  by (induction ss arbitrary: w) (simp_all add: keep_start)

lemma keep_step: "x \<in> set (trace w) \<Longrightarrow> x \<in> set (trace (step cfg e w))"
  by (cases e) (simp_all add: keep_gesture keep_extended keep_run_callback split: option.splits)

lemma keep_run: "x \<in> set (trace w) \<Longrightarrow> x \<in> set (trace (run cfg es w))"
  by (induction es arbitrary: w) (simp_all add: keep_step)

lemma run_append: "run cfg (es @ es') w = run cfg es' (run cfg es w)"
  by (induction es arbitrary: w) simp_all

subsection \<open>What the invariant says about one arm\<close>

lemma inv_listening:
  assumes "race_inv cfg w" "listening a w"
  shows "deadline_pending a w" "Pressed a \<notin> set (trace w)" "TimedOut a \<notin> set (trace w)"
    "Armed a \<in> set (trace w)"
  using assms by (force simp: race_inv_def listeners_ok_def listening_def deadline_pending_def)+

lemma inv_deadline:
  assumes "race_inv cfg w" "deadline_pending a w"
  shows "listening a w"
proof -
  from assms(2) obtain h where "(h, OnTimeout a) \<in> set (pending w)"
    by (auto simp: deadline_pending_def)
  then have "(a, h) \<in> set (gazeListeners w)"
    using assms(1) by (auto simp: race_inv_def pending_ok_def)
  then show ?thesis by (force simp: listening_def)
qed

lemma inv_marks:
  assumes "race_inv cfg w"
  shows "Pressed a \<in> set (trace w) \<Longrightarrow> TimedOut a \<notin> set (trace w)"
    "Action a \<in> set (trace w) \<Longrightarrow> Pressed a \<in> set (trace w)"
    "Armed a \<in> set (trace w) \<Longrightarrow>
       listening a w \<or> Pressed a \<in> set (trace w) \<or> TimedOut a \<in> set (trace w)"
  using assms by (auto simp: race_inv_def trace_ok_def listening_def)

lemma fire_deadline:
  assumes inv: "race_inv cfg w" and p: "map_of (pending w) h = Some (OnTimeout a)"
    and my: "menu_at cfg (amenu a) = Some my"
    and nl: "\<not> (kind my = LeafMenu \<and> isLastButton my (aix a) \<and> isLastLoop (aloop a))"
  shows "step cfg (Fire h) w =
         button_scan (amenu a) (nextButton my (aix a))
           (case kind my of BranchMenu \<Rightarrow> 0 | LeafMenu \<Rightarrow> nextLoop my (aix a) (aloop a))
           (removeGazeListener a (observe [TimedOut a, Toggle (amenu a) (aix a)] (clearTimeout h w)))"
proof -
  have "(h, OnTimeout a) \<in> set (pending w)"
    using p by (rule map_of_SomeD)
  then have "(a, h) \<in> set (gazeListeners w)"
    using inv by (auto simp: race_inv_def pending_ok_def)
  then have "valid_arm cfg a"
    using inv by (auto simp: race_inv_def listeners_ok_def)
  then have "aix a < length (buttons my)"
    using my by (auto simp: valid_arm_def dest: menu_atD)
  then have "0 < length (buttons my)"
    by linarith
  then have "button_at my (nextButton my (aix a)) \<noteq> None"
    by (simp add: button_at_def nextButton_def nButtons_def)
  then show ?thesis
    using p my nl
    by (cases "kind my") (auto simp: onTimeout_def cbpassed_def scanAt_def)
qed

lemma gesture_presses:
  "l \<in> set ls \<Longrightarrow> Pressed (fst l) \<in> set (trace (foldl (\<lambda>w l. onPress l w) w ls))"
proof (induction ls arbitrary: w)
  case Nil
  then show ?case by simp
next
  case (Cons k ls)
  show ?case
  proof (cases "l = k")
    case True
    have "Pressed (fst k) \<in> set (trace (onPress k w))"
      by (cases k) (simp add: onPress_def)
    then show ?thesis
      using True by (simp add: keep_gesture)
  next
    case False
    then show ?thesis using Cons by simp
  qed
qed

lemma deadline_times_out:
  assumes "map_of (pending w) h = Some (OnTimeout a)"
  shows "TimedOut a \<in> set (trace (step cfg (Fire h) w))"
proof -
  have "TimedOut a \<in> set (trace (removeGazeListener a
          (observe [TimedOut a, Toggle (amenu a) (aix a)] (clearTimeout h w))))"
    by simp
  then show ?thesis
    using assms by (simp add: onTimeout_def keep_cbpassed)
qed

lemma sample_world:
  "run sample_menus [ExtendedGesture, Fire 0] (initial_world sample_menus) =
   \<lparr>gazeListeners = [(\<lparr>armId = 1, amenu = 0, aix = 1, aloop = 0\<rparr>, 1)],
    extendedGazeListeners = [],
    pending = [(1, OnTimeout \<lparr>armId = 1, amenu = 0, aix = 1, aloop = 0\<rparr>)],
    nextHandle = 2, nextArm = 2,
    trace = [Scan 0, SlideDown 0, Toggle 0 0, Announce 0 0,
       Armed \<lparr>armId = 0, amenu = 0, aix = 0, aloop = 0\<rparr>, Toggle 0 2,
       TimedOut \<lparr>armId = 0, amenu = 0, aix = 0, aloop = 0\<rparr>, Toggle 0 0,
       Toggle 0 1, Announce 0 1, Armed \<lparr>armId = 1, amenu = 0, aix = 1, aloop = 0\<rparr>]\<rparr>"
  by code_simp

text \<open>
  Claim C1. In every state the program reaches, each arm is in one of two states. While
  armed, its listener is registered, its deadline waits, and neither outcome has run; a
  gesture then runs \<open>onPress\<close>, which deregisters the listener and clears the deadline,
  and the deadline, when it comes due first, runs \<open>onTimeout\<close>, which deregisters the
  listener. Once one outcome has run the other cannot: after the deadline, a gesture and
  whatever follows it neither runs \<open>onPress\<close> of that arm nor invokes its action. The
  deadline that comes due, unless it ends a leaf menu's last loop, arms the next button of
  the same menu.
\<close>

theorem confirm_timeout_race:
  "(let w = run cfg es (initial_world cfg)
    in (listening a w \<longrightarrow>
          deadline_pending a w \<and> Pressed a \<notin> set (trace w) \<and> TimedOut a \<notin> set (trace w) \<and>
          Pressed a \<in> set (trace (step cfg Gesture w)) \<and>
          \<not> listening a (step cfg Gesture w) \<and> \<not> deadline_pending a (step cfg Gesture w) \<and>
          TimedOut a \<notin> set (trace (step cfg Gesture w))) \<and>
       (\<forall>h. map_of (pending w) h = Some (OnTimeout a) \<longrightarrow>
          listening a w \<and>
          TimedOut a \<in> set (trace (step cfg (Fire h) w)) \<and>
          \<not> listening a (step cfg (Fire h) w) \<and> \<not> deadline_pending a (step cfg (Fire h) w) \<and>
          Pressed a \<notin> set (trace (step cfg (Fire h) w))) \<and>
       (Armed a \<in> set (trace w) \<longrightarrow>
          listening a w \<or> Pressed a \<in> set (trace w) \<or> TimedOut a \<in> set (trace w)) \<and>
       (Pressed a \<in> set (trace w) \<longrightarrow>
          \<not> listening a w \<and> \<not> deadline_pending a w \<and> TimedOut a \<notin> set (trace w)) \<and>
       (TimedOut a \<in> set (trace w) \<longrightarrow>
          \<not> listening a w \<and> \<not> deadline_pending a w \<and> Pressed a \<notin> set (trace w) \<and>
          Pressed a \<notin> set (trace (run cfg (Gesture # es') w)) \<and>
          Action a \<notin> set (trace (run cfg (Gesture # es') w))) \<and>
       (\<forall>h my. map_of (pending w) h = Some (OnTimeout a) \<and> menu_at cfg (amenu a) = Some my \<and>
           \<not> (kind my = LeafMenu \<and> isLastButton my (aix a) \<and> isLastLoop (aloop a)) \<longrightarrow>
           gazeListeners (step cfg (Fire h) w) =
             filter (\<lambda>l. fst l \<noteq> a) (gazeListeners w) @
             [(\<lparr>armId = nextArm w, amenu = amenu a, aix = nextButton my (aix a),
                aloop = (case kind my of BranchMenu \<Rightarrow> 0
                         | LeafMenu \<Rightarrow> nextLoop my (aix a) (aloop a))\<rparr>, nextHandle w)]))"
proof -
  let ?w = "run cfg es (initial_world cfg)"
  let ?v = "run cfg (Gesture # es') ?w"
  let ?g = "step cfg Gesture ?w"
  have inv: "race_inv cfg ?w"
    by (simp add: inv_run inv_initial)
  have inv': "race_inv cfg ?v"
    using inv by (rule inv_run)
  have invg: "race_inv cfg ?g"
    using inv by (rule inv_step)
  have resolved: "\<not> listening a u \<and> \<not> deadline_pending a u"
    if "race_inv cfg u" "Pressed a \<in> set (trace u) \<or> TimedOut a \<in> set (trace u)" for u
    using that inv_listening(2,3)[OF that(1)] inv_deadline[OF that(1)] by blast
  have 1: "deadline_pending a ?w \<and> Pressed a \<notin> set (trace ?w) \<and> TimedOut a \<notin> set (trace ?w) \<and>
          Pressed a \<in> set (trace ?g) \<and> \<not> listening a ?g \<and> \<not> deadline_pending a ?g \<and>
          TimedOut a \<notin> set (trace ?g)"
    if l: "listening a ?w"
  proof -
    from l obtain k where k: "k \<in> set (gazeListeners ?w)" "fst k = a"
      by (auto simp: listening_def)
    have p: "Pressed a \<in> set (trace ?g)"
      using gesture_presses[OF k(1), of ?w] k(2) by simp
    show ?thesis
      using inv_listening[OF inv l] p resolved[OF invg] inv_marks(1)[OF invg p] by blast
  qed
  have 2: "listening a ?w \<and> TimedOut a \<in> set (trace (step cfg (Fire h) ?w)) \<and>
          \<not> listening a (step cfg (Fire h) ?w) \<and> \<not> deadline_pending a (step cfg (Fire h) ?w) \<and>
          Pressed a \<notin> set (trace (step cfg (Fire h) ?w))"
    if p: "map_of (pending ?w) h = Some (OnTimeout a)" for h
  proof -
    have i: "race_inv cfg (step cfg (Fire h) ?w)"
      using inv by (rule inv_step)
    have t: "TimedOut a \<in> set (trace (step cfg (Fire h) ?w))"
      using p by (rule deadline_times_out)
    have "deadline_pending a ?w"
      using map_of_SomeD[OF p] by (force simp: deadline_pending_def)
    then have "listening a ?w"
      using inv by (rule inv_deadline[rotated])
    then show ?thesis
      using t resolved[OF i] inv_marks(1)[OF i, of a] by blast
  qed
  have 3: "listening a ?w \<or> Pressed a \<in> set (trace ?w) \<or> TimedOut a \<in> set (trace ?w)"
    if "Armed a \<in> set (trace ?w)"
    using inv_marks(3)[OF inv that] .
  have 4: "\<not> listening a ?w \<and> \<not> deadline_pending a ?w \<and> TimedOut a \<notin> set (trace ?w)"
    if "Pressed a \<in> set (trace ?w)"
    using that resolved[OF inv] inv_marks(1)[OF inv] by blast
  have 5: "\<not> listening a ?w \<and> \<not> deadline_pending a ?w \<and> Pressed a \<notin> set (trace ?w) \<and>
      Pressed a \<notin> set (trace ?v) \<and> Action a \<notin> set (trace ?v)"
    if t: "TimedOut a \<in> set (trace ?w)"
  proof -
    have "TimedOut a \<in> set (trace ?v)"
      using t by (rule keep_run)
    then have "Pressed a \<notin> set (trace ?v)" "Action a \<notin> set (trace ?v)"
      using inv_marks(1,2)[OF inv', of a] by blast+
    then show ?thesis
      using t resolved[OF inv] inv_marks(1)[OF inv] by blast
  qed
  have 6: "gazeListeners (step cfg (Fire h) ?w) =
             filter (\<lambda>l. fst l \<noteq> a) (gazeListeners ?w) @
             [(\<lparr>armId = nextArm ?w, amenu = amenu a, aix = nextButton my (aix a),
                aloop = (case kind my of BranchMenu \<Rightarrow> 0
                         | LeafMenu \<Rightarrow> nextLoop my (aix a) (aloop a))\<rparr>, nextHandle ?w)]"
    if "map_of (pending ?w) h = Some (OnTimeout a)" "menu_at cfg (amenu a) = Some my"
      "\<not> (kind my = LeafMenu \<and> isLastButton my (aix a) \<and> isLastLoop (aloop a))" for h my
    by (simp add: fire_deadline[OF inv that] del: step.simps)
  show ?thesis
    unfolding Let_def using 1 2 3 4 5 6 by blast
qed

text \<open>The first button of the sample main menu times out; the second is armed.\<close>

theorem confirm_timeout_race_witness:
  "(let w = run sample_menus [ExtendedGesture, Fire 0] (initial_world sample_menus);
        a0 = \<lparr>armId = 0, amenu = 0, aix = 0, aloop = 0\<rparr>;
        a1 = \<lparr>armId = 1, amenu = 0, aix = 1, aloop = 0\<rparr>
    in TimedOut a0 \<in> set (trace w) \<and> \<not> listening a0 w \<and>
       Action a0 \<notin> set (trace (run sample_menus [Gesture, Fire 2, Fire 3] w)) \<and>
       listening a1 w \<and> deadline_pending a1 w \<and>
       Pressed a1 \<in> set (trace (step sample_menus Gesture w)) \<and>
       \<not> deadline_pending a1 (step sample_menus Gesture w) \<and>
       map_of (pending w) 1 = Some (OnTimeout a1) \<and>
       TimedOut a1 \<in> set (trace (step sample_menus (Fire 1) w)) \<and>
       \<not> listening a1 (step sample_menus (Fire 1) w) \<and>
       gazeListeners (step sample_menus (Fire 1) w) =
         [(\<lparr>armId = 2, amenu = 0, aix = 2, aloop = 0\<rparr>, 2)])"
proof -
  let ?w = "run sample_menus [ExtendedGesture, Fire 0] (initial_world sample_menus)"
  let ?a0 = "\<lparr>armId = 0, amenu = 0, aix = 0, aloop = 0\<rparr>"
  let ?a1 = "\<lparr>armId = 1, amenu = 0, aix = 1, aloop = 0\<rparr>"
  let ?my = "sample_menus ! 0"
  have t: "TimedOut ?a0 \<in> set (trace ?w)"
    unfolding sample_world by simp
  have l: "listening ?a1 ?w"
    unfolding sample_world by (simp add: listening_def)
  have p: "map_of (pending ?w) 1 = Some (OnTimeout ?a1)"
    unfolding sample_world by simp
  have m: "menu_at sample_menus (amenu ?a1) = Some ?my"
    by (simp add: menu_at_def sample_menus_def)
  have n: "\<not> (kind ?my = LeafMenu \<and> isLastButton ?my (aix ?a1) \<and> isLastLoop (aloop ?a1))"
    by (simp add: sample_menus_def)
  have f: "filter (\<lambda>l. fst l \<noteq> ?a1) (gazeListeners ?w) = []" "nextArm ?w = 2" "nextHandle ?w = 2"
    unfolding sample_world by simp_all
  have k: "nextButton ?my (aix ?a1) = 2" "kind ?my = BranchMenu"
    by (simp_all add: nextButton_def nButtons_def sample_menus_def)
  have c0: "\<not> listening ?a0 ?w \<and>
      Action ?a0 \<notin> set (trace (run sample_menus (Gesture # [Fire 2, Fire 3]) ?w))"
    using confirm_timeout_race [where a = ?a0 and cfg = sample_menus
        and es = "[ExtendedGesture, Fire 0]" and es' = "[Fire 2, Fire 3]"] t
    unfolding Let_def by blast
  have c1: "deadline_pending ?a1 ?w \<and>
      Pressed ?a1 \<in> set (trace (step sample_menus Gesture ?w)) \<and>
      \<not> deadline_pending ?a1 (step sample_menus Gesture ?w)"
    using confirm_timeout_race [where a = ?a1 and cfg = sample_menus
        and es = "[ExtendedGesture, Fire 0]" and es' = "[]"] l
    unfolding Let_def by blast
  have c2: "TimedOut ?a1 \<in> set (trace (step sample_menus (Fire 1) ?w)) \<and>
      \<not> listening ?a1 (step sample_menus (Fire 1) ?w)"
    using confirm_timeout_race [where a = ?a1 and cfg = sample_menus
        and es = "[ExtendedGesture, Fire 0]" and es' = "[]"] p
    unfolding Let_def by blast
  have "gazeListeners (step sample_menus (Fire 1) ?w) =
          filter (\<lambda>l. fst l \<noteq> ?a1) (gazeListeners ?w) @
          [(\<lparr>armId = nextArm ?w, amenu = amenu ?a1, aix = nextButton ?my (aix ?a1),
             aloop = (case kind ?my of BranchMenu \<Rightarrow> 0
                      | LeafMenu \<Rightarrow> nextLoop ?my (aix ?a1) (aloop ?a1))\<rparr>, nextHandle ?w)]"
    using confirm_timeout_race [where a = ?a1 and cfg = sample_menus
        and es = "[ExtendedGesture, Fire 0]" and es' = "[]"] p m n
    unfolding Let_def by blast
  then have c5: "gazeListeners (step sample_menus (Fire 1) ?w) =
      [(\<lparr>armId = 2, amenu = 0, aix = 2, aloop = 0\<rparr>, 2)]"
    unfolding f k by simp
  show ?thesis
    unfolding Let_def using t l p c0 c1 c2 c5 by blast
qed

subsection \<open>Timeouts in a leaf menu\<close>










lemma scans_simps [simp]:
  "scans p (button_scan m ix l w) = scans p w"
  "scans p (removeGazeListener a w) = scans p w"
  "scans p (clearTimeout h w) = scans p w"
  "scans p (uncaught e w) = scans p w"
  "scans p (slideUp cfg m w) = scans p w"
  "scans p (slideDown cfg m w) = scans p w"
  "scans p (scanAt cfg m ix l w) = scans p w"
  "scans p (observe os w) = scans p w + count_list os (Scan p)"
  by (simp_all add: scans_def slideUp_def slideDown_def scanAt_def split: option.splits)

lemma timeouts_simps [simp]:
  "timeouts (button_scan m ix l w) = timeouts w"
  "timeouts (removeGazeListener a w) = timeouts w"
  "timeouts (clearTimeout h w) = timeouts w"
  "timeouts (uncaught e w) = timeouts w"
  "timeouts (slideUp cfg m w) = timeouts w"
  "timeouts (slideDown cfg m w) = timeouts w"
  "timeouts (scanAt cfg m ix l w) = timeouts w"
  "timeouts (observe os w) = timeouts w + length (filter is_timeout os)"
  by (simp_all add: timeouts_def slideUp_def slideDown_def scanAt_def split: option.splits)

lemma menu_scan_first:
  assumes "menu_at cfg m = Some my" "0 < nButtons my"
  shows "menu_scan cfg m w =
         button_scan m 0 (case kind my of BranchMenu \<Rightarrow> 0 | LeafMenu \<Rightarrow> 0)
           (slideDown cfg m (observe [Scan m] w))"
  using assms by (simp add: menu_scan_def scanAt_def button_at_def nButtons_def)

lemma cbpressed_leaf:
  "menu_at cfg (amenu a) = Some my \<Longrightarrow> kind my = LeafMenu \<Longrightarrow> parent my = Some p \<Longrightarrow>
   cbpressed cfg a w = menu_scan cfg p (slideUp cfg (amenu a) w)"
  by (simp add: cbpressed_def Let_def)

lemma cbpressed_branch:
  "menu_at cfg (amenu a) = Some my \<Longrightarrow> kind my = BranchMenu \<Longrightarrow>
   cbpressed cfg a w = menu_scan cfg (amenu a) w"
  by (simp add: cbpressed_def)





subsection \<open>After a confirmed button\<close>

lemma slideUp_fields [simp]:
  "gazeListeners (slideUp cfg m w) = gazeListeners w"
  "extendedGazeListeners (slideUp cfg m w) = extendedGazeListeners w"
  "pending (slideUp cfg m w) = pending w"
  "nextHandle (slideUp cfg m w) = nextHandle w"
  "nextArm (slideUp cfg m w) = nextArm w"
  by (simp_all add: slideUp_def split: option.splits)

lemma slideDown_fields [simp]:
  "gazeListeners (slideDown cfg m w) = gazeListeners w"
  "extendedGazeListeners (slideDown cfg m w) = extendedGazeListeners w"
  "pending (slideDown cfg m w) = pending w"
  "nextHandle (slideDown cfg m w) = nextHandle w"
  "nextArm (slideDown cfg m w) = nextArm w"
  by (simp_all add: slideDown_def split: option.splits)

lemma lookup_fresh:
  "\<forall>t \<in> set ps. fst t \<noteq> n \<Longrightarrow> map_of (ps @ [(n, c)]) n = Some c"
  by (induction ps) auto

lemma menu_scan_listeners:
  assumes "menu_at cfg m = Some my" "0 < nButtons my"
  shows "gazeListeners (menu_scan cfg m w) =
         gazeListeners w @ [(\<lparr>armId = nextArm w, amenu = m, aix = 0, aloop = 0\<rparr>, nextHandle w)]"
  by (cases "kind my") (simp_all add: menu_scan_first[OF assms])

lemma bump_fields [simp]:
  "gazeListeners (bump w) = gazeListeners w"
  "extendedGazeListeners (bump w) = extendedGazeListeners w"
  "pending (bump w) = pending w"
  "nextHandle (bump w) = nextHandle w + 1"
  "nextArm (bump w) = nextArm w"
  "trace (bump w) = trace w"
  by (simp_all add: bump_def)

lemma bounded_simps [simp]:
  "bounded (observe os w) = bounded w"
  "bounded (removeGazeListener a w) = bounded w"
  "bounded (addExtendedGazeListener s w) = bounded w"
  "bounded w \<Longrightarrow> bounded (clearTimeout h w)"
  "bounded w \<Longrightarrow> bounded (bump w)"
  "bounded w \<Longrightarrow> bounded (setTimeout c w)"
  by (auto simp: bounded_def less_Suc_eq)

lemma more_scans [simp]:
  "scans p (bump w) = scans p w"
  "scans p (setTimeout c w) = scans p w"
  "scans p (addExtendedGazeListener s w) = scans p w"
  by (simp_all add: scans_def)

lemma slideUps_simps [simp]:
  "slideUps p (button_scan m ix l w) = slideUps p w"
  "slideUps p (removeGazeListener a w) = slideUps p w"
  "slideUps p (clearTimeout h w) = slideUps p w"
  "slideUps p (uncaught e w) = slideUps p w"
  "slideUps p (slideDown cfg m w) = slideUps p w"
  "slideUps p (scanAt cfg m ix l w) = slideUps p w"
  "slideUps p (bump w) = slideUps p w"
  "slideUps p (setTimeout c w) = slideUps p w"
  "slideUps p (addExtendedGazeListener s w) = slideUps p w"
  "slideUps p (observe os w) = slideUps p w + count_list os (SlideUp p)"
  by (simp_all add: slideUps_def slideDown_def scanAt_def split: option.splits)

lemma slideUps_slideUp:
  "menu_at cfg m = Some my \<Longrightarrow>
   slideUps p (slideUp cfg m w) = slideUps p w + (if p = m \<and> divElem my then 1 else 0)"
  by (simp add: slideUp_def)

lemma slideUps_menu_scan [simp]: "slideUps p (menu_scan cfg m w) = slideUps p w"
  by (simp add: menu_scan_def split: option.splits)

lemma scans_menu_scan:
  "menu_at cfg m = Some my \<Longrightarrow>
   scans p (menu_scan cfg m w) = scans p w + (if p = m then 1 else 0)"
  by (simp add: menu_scan_def)

lemma fire_last:
  assumes "bounded w" "k = nextHandle w"
  shows "step cfg (Fire k) (setTimeout c w) = run_callback cfg c (bump w)"
proof -
  have ne: "\<forall>t \<in> set (pending w). fst t \<noteq> nextHandle w"
    using assms(1) by (auto simp: bounded_def)
  have l: "map_of (pending w @ [(nextHandle w, c)]) (nextHandle w) = Some c"
    using ne by (rule lookup_fresh)
  have f: "filter (\<lambda>t. fst t \<noteq> nextHandle w) (pending w) = pending w"
    using ne by (simp add: filter_id_conv)
  have "clearTimeout (nextHandle w) (setTimeout c w) = bump w"
    by (simp add: clearTimeout_def setTimeout_def bump_def f)
  then show ?thesis
    using l by (simp add: assms(2))
qed

lemma gesture_single:
  "gazeListeners w = [(a, h)] \<Longrightarrow>
   step cfg Gesture w =
   setTimeout (AfterPress a) (clearTimeout h (removeGazeListener a (observe [Pressed a] w)))"
  by (simp add: onPress_def)

lemma confirm_prefix:
  assumes "bounded w" "gazeListeners w = [(a, h)]"
  shows "run cfg (Gesture # Fire (nextHandle w) # Fire (nextHandle w + 1) # es) w =
         run cfg es (action cfg a (confirmed a h w))"
  using assms
  by (simp add: gesture_single fire_last afterPress_def afterAnnouncement_def confirmed_def
      del: step.simps)

lemma confirmed_fields [simp]:
  "gazeListeners (confirmed a h w) = filter (\<lambda>l. fst l \<noteq> a) (gazeListeners w)"
  "extendedGazeListeners (confirmed a h w) = extendedGazeListeners w"
  "pending (confirmed a h w) = filter (\<lambda>t. fst t \<noteq> h) (pending w)"
  "nextHandle (confirmed a h w) = nextHandle w + 2"
  "nextArm (confirmed a h w) = nextArm w"
  "scans p (confirmed a h w) = scans p w"
  "slideUps p (confirmed a h w) = slideUps p w"
  "Action a \<in> set (trace (confirmed a h w))"
  "bounded w \<Longrightarrow> bounded (confirmed a h w)"
  by (simp_all add: confirmed_def)

lemma action_completes:
  assumes bw: "bounded w" and ls: "gazeListeners w = [(a, h)]"
    and my: "menu_at cfg (amenu a) = Some my" and b: "button_at my (aix a) = Some b"
    and cb: "calls_back b"
  shows "\<exists>X. run cfg (completion_events b (nextHandle w)) w = cbpressed cfg a X \<and>
           gazeListeners X = [] \<and> nextArm X = nextArm w \<and>
           nextHandle X = nextHandle w + handles_used b \<and> Action a \<in> set (trace X) \<and>
           (\<forall>q. scans q X = scans q w \<and> slideUps q X = slideUps q w)"
proof -
  let ?Y = "confirmed a h w"
  note pre = confirm_prefix[OF bw ls]
  have bdd: "bounded ?Y" using bw by simp
  show ?thesis
  proof (cases b)
    case TextButton
    have "run cfg (completion_events b (nextHandle w)) w =
          cbpressed cfg a (observe [BufferWrite a] ?Y)"
      by (simp only: TextButton completion_events.simps pre) (simp add: action_def my b[unfolded TextButton])
    then show ?thesis
      by (intro exI[of _ "observe [BufferWrite a] ?Y"]) (simp add: ls TextButton)
  next
    case BufferActionButton
    have "run cfg (completion_events b (nextHandle w)) w =
          cbpressed cfg a (bump (observe [BufferExecute a] ?Y))"
      using bdd
      by (simp only: BufferActionButton completion_events.simps pre)
         (simp add: action_def my b[unfolded BufferActionButton] fire_last del: step.simps)
    then show ?thesis
      by (intro exI[of _ "bump (observe [BufferExecute a] ?Y)"]) (simp add: ls BufferActionButton)
  next
    case NotImplementedButton
    have "run cfg (completion_events b (nextHandle w)) w =
          cbpressed cfg a (bump (bump (observe [Speak a] ?Y)))"
      using bdd
      by (simp only: NotImplementedButton completion_events.simps pre)
         (simp add: action_def my b[unfolded NotImplementedButton] fire_last del: step.simps)
    then show ?thesis
      by (intro exI[of _ "bump (bump (observe [Speak a] ?Y))"]) (simp add: ls NotImplementedButton)
  next
    case EmailButton
    have "run cfg (completion_events b (nextHandle w)) w =
          cbpressed cfg a (bump (observe [Speak a] (bump (observe [SendMail a] ?Y))))"
      using bdd
      by (simp only: EmailButton completion_events.simps pre)
         (simp add: action_def my b[unfolded EmailButton] fire_last del: step.simps)
    then show ?thesis
      by (intro exI[of _ "bump (observe [Speak a] (bump (observe [SendMail a] ?Y)))"])
         (simp add: ls EmailButton)
  next
    case RequestButton
    have "run cfg (completion_events b (nextHandle w)) w =
          cbpressed cfg a (bump (bump (observe [Speak a]
            (bump (setTimeout StopOscillator (observe [Beep a] ?Y))))))"
      using bdd
      by (simp only: RequestButton completion_events.simps pre)
         (simp add: action_def my b[unfolded RequestButton] fire_last del: step.simps)
    then show ?thesis
      by (intro exI[of _ "bump (bump (observe [Speak a]
            (bump (setTimeout StopOscillator (observe [Beep a] ?Y)))))"])
         (simp add: ls RequestButton)
  qed (use cb in simp_all)
qed

lemma start_stops:
  assumes bw: "bounded w" and ls: "gazeListeners w = [(a, h)]"
    and my: "menu_at cfg (amenu a) = Some my" and b: "button_at my (aix a) = Some StartButton"
  shows "run cfg (completion_events StartButton (nextHandle w)) w =
         observe [Toggle (amenu a) (aix a)]
           (addExtendedGazeListener (amenu a, aix a) (confirmed a h w))"
  by (simp only: completion_events.simps confirm_prefix[OF bw ls]) (simp add: action_def my b)

lemma sample_leaf_world:
  "run sample_menus [ExtendedGesture, Gesture, Fire 1, Fire 2] (initial_world sample_menus) =
   \<lparr>gazeListeners = [(\<lparr>armId = 1, amenu = 1, aix = 0, aloop = 0\<rparr>, 3)],
    extendedGazeListeners = [],
    pending = [(3, OnTimeout \<lparr>armId = 1, amenu = 1, aix = 0, aloop = 0\<rparr>)],
    nextHandle = 4, nextArm = 2,
    trace = [Scan 0, SlideDown 0, Toggle 0 0, Announce 0 0,
       Armed \<lparr>armId = 0, amenu = 0, aix = 0, aloop = 0\<rparr>, Toggle 0 2,
       Pressed \<lparr>armId = 0, amenu = 0, aix = 0, aloop = 0\<rparr>, Announce 0 0,
       Toggle 0 0, Action \<lparr>armId = 0, amenu = 0, aix = 0, aloop = 0\<rparr>,
       Scan 1, SlideDown 1, Toggle 1 0, Announce 1 0,
       Armed \<lparr>armId = 1, amenu = 1, aix = 0, aloop = 0\<rparr>]\<rparr>"
  by code_simp

lemma sample_start_world:
  "run sample_menus [ExtendedGesture, Fire 0, Fire 1] (initial_world sample_menus) =
   \<lparr>gazeListeners = [(\<lparr>armId = 2, amenu = 0, aix = 2, aloop = 0\<rparr>, 2)],
    extendedGazeListeners = [],
    pending = [(2, OnTimeout \<lparr>armId = 2, amenu = 0, aix = 2, aloop = 0\<rparr>)],
    nextHandle = 3, nextArm = 3,
    trace = [Scan 0, SlideDown 0, Toggle 0 0, Announce 0 0,
       Armed \<lparr>armId = 0, amenu = 0, aix = 0, aloop = 0\<rparr>, Toggle 0 2,
       TimedOut \<lparr>armId = 0, amenu = 0, aix = 0, aloop = 0\<rparr>, Toggle 0 0,
       Toggle 0 1, Announce 0 1,
       Armed \<lparr>armId = 1, amenu = 0, aix = 1, aloop = 0\<rparr>,
       TimedOut \<lparr>armId = 1, amenu = 0, aix = 1, aloop = 0\<rparr>, Toggle 0 1,
       Toggle 0 2, Announce 0 2,
       Armed \<lparr>armId = 2, amenu = 0, aix = 2, aloop = 0\<rparr>]\<rparr>"
  by code_simp

lemma sample_last_world:
  "run sample_menus [ExtendedGesture, Fire 0, Fire 1, Fire 2] (initial_world sample_menus) =
   \<lparr>gazeListeners = [(\<lparr>armId = 3, amenu = 0, aix = 3, aloop = 0\<rparr>, 3)],
    extendedGazeListeners = [],
    pending = [(3, OnTimeout \<lparr>armId = 3, amenu = 0, aix = 3, aloop = 0\<rparr>)],
    nextHandle = 4, nextArm = 4,
    trace = [Scan 0, SlideDown 0, Toggle 0 0, Announce 0 0,
       Armed \<lparr>armId = 0, amenu = 0, aix = 0, aloop = 0\<rparr>, Toggle 0 2,
       TimedOut \<lparr>armId = 0, amenu = 0, aix = 0, aloop = 0\<rparr>, Toggle 0 0,
       Toggle 0 1, Announce 0 1,
       Armed \<lparr>armId = 1, amenu = 0, aix = 1, aloop = 0\<rparr>,
       TimedOut \<lparr>armId = 1, amenu = 0, aix = 1, aloop = 0\<rparr>, Toggle 0 1,
       Toggle 0 2, Announce 0 2,
       Armed \<lparr>armId = 2, amenu = 0, aix = 2, aloop = 0\<rparr>,
       TimedOut \<lparr>armId = 2, amenu = 0, aix = 2, aloop = 0\<rparr>, Toggle 0 2,
       Toggle 0 3, Announce 0 3,
       Armed \<lparr>armId = 3, amenu = 0, aix = 3, aloop = 0\<rparr>]\<rparr>"
  by code_simp

text \<open>
  Claim C3 says the menu goes on at the index after the confirmed button. The code does
  not: in the sample tree the text button at index 1 of the branch menu of four buttons
  is confirmed, and the menu is armed again at index 0, not at index 2.
\<close>

theorem rearm_at_next_index_counterexample:
  "button_at (sample_menus ! 0) 1 = Some TextButton \<and>
   kind (sample_menus ! 0) = BranchMenu \<and>
   gazeListeners (run sample_menus [ExtendedGesture, Fire 0] (initial_world sample_menus)) =
     [(\<lparr>armId = 1, amenu = 0, aix = 1, aloop = 0\<rparr>, 1)] \<and>
   nextButton (sample_menus ! 0) 1 = 2 \<and>
   gazeListeners (run sample_menus [ExtendedGesture, Fire 0, Gesture, Fire 2, Fire 3]
                    (initial_world sample_menus)) =
     [(\<lparr>armId = 2, amenu = 0, aix = 0, aloop = 0\<rparr>, 4)] \<and>
   aix (fst (last (gazeListeners (run sample_menus [ExtendedGesture, Fire 0, Gesture, Fire 2, Fire 3]
                    (initial_world sample_menus))))) \<noteq> nextButton (sample_menus ! 0) 1"
  by code_simp

text \<open>
  Claim C3, amended. An armed button, the only one armed, is confirmed, and the events of
  its action follow. If it is a text, request, buffer action, email or not-implemented
  button, its action ends in \<open>cbpressed\<close>, and then: in a branch menu the scan of the same
  menu starts again and index 0 is armed, nothing slides up; in a leaf menu whose parent
  has a button the menu slides up (once, if it has a document element), the scan of the
  parent starts and the parent's index 0 is armed. If it is the start button, its action
  registers the start listener again and does not call \<open>cbpressed\<close>: no button is armed,
  no deadline waits and no scan starts.
\<close>

theorem confirmed_action_restarts_scan:
  assumes "gazeListeners (run cfg es (initial_world cfg)) = [(a, h)]"
    and "menu_at cfg (amenu a) = Some my" and "button_at my (aix a) = Some b"
  shows "(let w = run cfg es (initial_world cfg);
              w' = run cfg (completion_events b (nextHandle w)) w
          in (calls_back b \<longrightarrow>
                Action a \<in> set (trace w') \<and>
                (kind my = BranchMenu \<longrightarrow>
                   gazeListeners w' =
                     [(\<lparr>armId = nextArm w, amenu = amenu a, aix = 0, aloop = 0\<rparr>,
                       nextHandle w + handles_used b)] \<and>
                   scans (amenu a) w' = scans (amenu a) w + 1 \<and>
                   (\<forall>q. slideUps q w' = slideUps q w)) \<and>
                (\<forall>p pm. kind my = LeafMenu \<and> parent my = Some p \<and> menu_at cfg p = Some pm \<and>
                    0 < nButtons pm \<longrightarrow>
                   gazeListeners w' =
                     [(\<lparr>armId = nextArm w, amenu = p, aix = 0, aloop = 0\<rparr>,
                       nextHandle w + handles_used b)] \<and>
                   scans p w' = scans p w + 1 \<and>
                   slideUps (amenu a) w' =
                     slideUps (amenu a) w + (if divElem my then 1 else 0))) \<and>
             (b = StartButton \<longrightarrow>
                Action a \<in> set (trace w') \<and> gazeListeners w' = [] \<and>
                (\<forall>c. \<not> deadline_pending c w') \<and>
                pending w' = filter (\<lambda>t. fst t \<noteq> h) (pending w) \<and>
                (amenu a, aix a) \<in> set (extendedGazeListeners w') \<and>
                (\<forall>q. scans q w' = scans q w)))"
proof -
  let ?w = "run cfg es (initial_world cfg)"
  let ?w' = "run cfg (completion_events b (nextHandle ?w)) ?w"
  have inv: "race_inv cfg ?w"
    by (simp add: inv_run inv_initial)
  then have bw: "bounded ?w"
    by (simp add: race_inv_def handles_ok_def bounded_def)
  have n: "0 < nButtons my"
    using assms(3) by (auto simp: nButtons_def dest: button_atD)
  have A: "Action a \<in> set (trace ?w') \<and>
      (kind my = BranchMenu \<longrightarrow>
         gazeListeners ?w' =
           [(\<lparr>armId = nextArm ?w, amenu = amenu a, aix = 0, aloop = 0\<rparr>,
             nextHandle ?w + handles_used b)] \<and>
         scans (amenu a) ?w' = scans (amenu a) ?w + 1 \<and>
         (\<forall>q. slideUps q ?w' = slideUps q ?w)) \<and>
      (\<forall>p pm. kind my = LeafMenu \<and> parent my = Some p \<and> menu_at cfg p = Some pm \<and>
          0 < nButtons pm \<longrightarrow>
         gazeListeners ?w' =
           [(\<lparr>armId = nextArm ?w, amenu = p, aix = 0, aloop = 0\<rparr>,
             nextHandle ?w + handles_used b)] \<and>
         scans p ?w' = scans p ?w + 1 \<and>
         slideUps (amenu a) ?w' = slideUps (amenu a) ?w + (if divElem my then 1 else 0))"
    if cb: "calls_back b"
  proof -
    from action_completes[OF bw assms cb] obtain X where
      w': "?w' = cbpressed cfg a X" and X: "gazeListeners X = []" "nextArm X = nextArm ?w"
      "nextHandle X = nextHandle ?w + handles_used b" "Action a \<in> set (trace X)"
      "\<And>q. scans q X = scans q ?w" "\<And>q. slideUps q X = slideUps q ?w"
      by blast
    have 1: "Action a \<in> set (trace ?w')"
      unfolding w' using X(4) by (rule keep_cbpressed)
    have 2: "gazeListeners ?w' =
           [(\<lparr>armId = nextArm ?w, amenu = amenu a, aix = 0, aloop = 0\<rparr>,
             nextHandle ?w + handles_used b)] \<and>
         scans (amenu a) ?w' = scans (amenu a) ?w + 1 \<and>
         (\<forall>q. slideUps q ?w' = slideUps q ?w)"
      if k: "kind my = BranchMenu"
      unfolding w' cbpressed_branch[OF assms(2) k]
      by (simp add: menu_scan_listeners[OF assms(2) n] scans_menu_scan[OF assms(2)] X)
    have 3: "gazeListeners ?w' =
           [(\<lparr>armId = nextArm ?w, amenu = p, aix = 0, aloop = 0\<rparr>,
             nextHandle ?w + handles_used b)] \<and>
         scans p ?w' = scans p ?w + 1 \<and>
         slideUps (amenu a) ?w' = slideUps (amenu a) ?w + (if divElem my then 1 else 0)"
      if k: "kind my = LeafMenu" "parent my = Some p" "menu_at cfg p = Some pm" "0 < nButtons pm"
      for p pm
      unfolding w' cbpressed_leaf[OF assms(2) k(1,2)]
      by (simp add: menu_scan_listeners[OF k(3,4)] scans_menu_scan[OF k(3)]
            slideUps_slideUp[OF assms(2)] X)
    show ?thesis using 1 2 3 by blast
  qed
  have S: "Action a \<in> set (trace ?w') \<and> gazeListeners ?w' = [] \<and>
      (\<forall>c. \<not> deadline_pending c ?w') \<and>
      pending ?w' = filter (\<lambda>t. fst t \<noteq> h) (pending ?w) \<and>
      (amenu a, aix a) \<in> set (extendedGazeListeners ?w') \<and>
      (\<forall>q. scans q ?w' = scans q ?w)"
    if sb: "b = StartButton"
  proof -
    have w': "?w' = observe [Toggle (amenu a) (aix a)]
           (addExtendedGazeListener (amenu a, aix a) (confirmed a h ?w))"
      unfolding sb using assms(3) by (intro start_stops[OF bw assms(1) assms(2)]) (simp add: sb)
    have nd: "\<not> deadline_pending c ?w'" for c
    proof
      assume "deadline_pending c ?w'"
      then obtain g where g: "(g, OnTimeout c) \<in> set (pending ?w)" "g \<noteq> h"
        unfolding w' by (auto simp: deadline_pending_def)
      then have "entry_ok ?w (g, OnTimeout c)"
        using inv by (auto simp: race_inv_def pending_ok_def)
      then show False using g(2) by (simp add: assms(1))
    qed
    show ?thesis
      using nd unfolding w' by (simp add: assms(1))
  qed
  show ?thesis
    unfolding Let_def using A S by blast
qed

text \<open>
  In the sample tree: the text button of the branch menu, the text button of the leaf
  menu, the not-implemented button and the start button.
\<close>

theorem confirmed_action_restarts_scan_witness:
  "gazeListeners (run sample_menus [Gesture, Fire 2, Fire 3]
      (run sample_menus [ExtendedGesture, Fire 0] (initial_world sample_menus))) =
     [(\<lparr>armId = 2, amenu = 0, aix = 0, aloop = 0\<rparr>, 4)] \<and>
   gazeListeners (run sample_menus [Gesture, Fire 4, Fire 5]
      (run sample_menus [ExtendedGesture, Gesture, Fire 1, Fire 2] (initial_world sample_menus))) =
     [(\<lparr>armId = 2, amenu = 0, aix = 0, aloop = 0\<rparr>, 6)] \<and>
   slideUps 1 (run sample_menus [Gesture, Fire 4, Fire 5]
      (run sample_menus [ExtendedGesture, Gesture, Fire 1, Fire 2] (initial_world sample_menus))) =
     slideUps 1
      (run sample_menus [ExtendedGesture, Gesture, Fire 1, Fire 2] (initial_world sample_menus)) + 1 \<and>
   gazeListeners (run sample_menus [Gesture, Fire 4, Fire 5, Fire 6, Fire 7]
      (run sample_menus [ExtendedGesture, Fire 0, Fire 1, Fire 2] (initial_world sample_menus))) =
     [(\<lparr>armId = 4, amenu = 0, aix = 0, aloop = 0\<rparr>, 8)] \<and>
   gazeListeners (run sample_menus [Gesture, Fire 3, Fire 4]
      (run sample_menus [ExtendedGesture, Fire 0, Fire 1] (initial_world sample_menus))) = [] \<and>
   (0, 2) \<in> set (extendedGazeListeners (run sample_menus [Gesture, Fire 3, Fire 4]
      (run sample_menus [ExtendedGesture, Fire 0, Fire 1] (initial_world sample_menus))))"
proof -
  let ?w = "run sample_menus [ExtendedGesture, Fire 0] (initial_world sample_menus)"
  let ?u = "run sample_menus [ExtendedGesture, Gesture, Fire 1, Fire 2] (initial_world sample_menus)"
  let ?v = "run sample_menus [ExtendedGesture, Fire 0, Fire 1, Fire 2] (initial_world sample_menus)"
  let ?s = "run sample_menus [ExtendedGesture, Fire 0, Fire 1] (initial_world sample_menus)"
  let ?a = "\<lparr>armId = 1, amenu = 0, aix = 1, aloop = 0\<rparr>"
  let ?b = "\<lparr>armId = 1, amenu = 1, aix = 0, aloop = 0\<rparr>"
  let ?c = "\<lparr>armId = 3, amenu = 0, aix = 3, aloop = 0\<rparr>"
  let ?d = "\<lparr>armId = 2, amenu = 0, aix = 2, aloop = 0\<rparr>"
  have m: "menu_at sample_menus (amenu ?a) = Some (sample_menus ! 0)"
      "button_at (sample_menus ! 0) (aix ?a) = Some TextButton"
      "menu_at sample_menus (amenu ?b) = Some (sample_menus ! 1)"
      "button_at (sample_menus ! 1) (aix ?b) = Some TextButton"
      "menu_at sample_menus (amenu ?c) = Some (sample_menus ! 0)"
      "button_at (sample_menus ! 0) (aix ?c) = Some NotImplementedButton"
      "menu_at sample_menus (amenu ?d) = Some (sample_menus ! 0)"
      "button_at (sample_menus ! 0) (aix ?d) = Some StartButton"
    by (simp_all add: menu_at_def button_at_def sample_menus_def)
  have k: "kind (sample_menus ! 0) = BranchMenu" "kind (sample_menus ! 1) = LeafMenu"
      "parent (sample_menus ! 1) = Some 0" "menu_at sample_menus 0 = Some (sample_menus ! 0)"
      "0 < nButtons (sample_menus ! 0)" "divElem (sample_menus ! 1)"
    by (simp_all add: menu_at_def nButtons_def sample_menus_def)
  have cb: "calls_back TextButton" "calls_back NotImplementedButton"
    by simp_all
  have w: "gazeListeners ?w = [(?a, 1)]" "nextHandle ?w = 2" "nextArm ?w = 2"
    unfolding sample_world by simp_all
  have u: "gazeListeners ?u = [(?b, 3)]" "nextHandle ?u = 4" "nextArm ?u = 2"
    unfolding sample_leaf_world by simp_all
  have v: "gazeListeners ?v = [(?c, 3)]" "nextHandle ?v = 4" "nextArm ?v = 4"
    unfolding sample_last_world by simp_all
  have s: "gazeListeners ?s = [(?d, 2)]" "nextHandle ?s = 3" "nextArm ?s = 3"
    unfolding sample_start_world by simp_all
  have ev: "completion_events TextButton 2 = [Gesture, Fire 2, Fire 3]"
      "completion_events TextButton 4 = [Gesture, Fire 4, Fire 5]"
      "completion_events NotImplementedButton 4 = [Gesture, Fire 4, Fire 5, Fire 6, Fire 7]"
      "completion_events StartButton 3 = [Gesture, Fire 3, Fire 4]"
      "2 + handles_used TextButton = 4" "4 + handles_used TextButton = 6"
      "4 + handles_used NotImplementedButton = 8"
    by simp_all
  note T1 = confirmed_action_restarts_scan [OF w(1) m(1) m(2), unfolded Let_def w ev]
  note T2 = confirmed_action_restarts_scan [OF u(1) m(3) m(4), unfolded Let_def u ev]
  note T3 = confirmed_action_restarts_scan [OF v(1) m(5) m(6), unfolded Let_def v ev]
  note T4 = confirmed_action_restarts_scan [OF s(1) m(7) m(8), unfolded Let_def s ev]
  have 1: "gazeListeners (run sample_menus [Gesture, Fire 2, Fire 3] ?w) =
     [(\<lparr>armId = 2, amenu = amenu ?a, aix = 0, aloop = 0\<rparr>, 4)]"
    using T1 cb k(1) by blast
  have 2: "gazeListeners (run sample_menus [Gesture, Fire 4, Fire 5] ?u) =
     [(\<lparr>armId = 2, amenu = 0, aix = 0, aloop = 0\<rparr>, 6)] \<and>
     slideUps (amenu ?b) (run sample_menus [Gesture, Fire 4, Fire 5] ?u) =
     slideUps (amenu ?b) ?u + (if divElem (sample_menus ! 1) then 1 else 0)"
    using T2 cb k(2,3,4,5) by blast
  have 3: "gazeListeners (run sample_menus [Gesture, Fire 4, Fire 5, Fire 6, Fire 7] ?v) =
     [(\<lparr>armId = 4, amenu = amenu ?c, aix = 0, aloop = 0\<rparr>, 8)]"
    using T3 cb k(1) by blast
  have 4: "gazeListeners (run sample_menus [Gesture, Fire 3, Fire 4] ?s) = [] \<and>
     (amenu ?d, aix ?d) \<in> set (extendedGazeListeners (run sample_menus [Gesture, Fire 3, Fire 4] ?s))"
    using T4 by blast
  show ?thesis
    using 1 2 3 4 k(6) by (simp del: run.simps)
qed

end
